theory Spec2Isabelle
  imports Main "HOL-Library.AList"
begin

section \<open>JSON values and the JavaScript operations the wrapper applies to them\<close>

text \<open>
  Every message, schema and configuration document handled by the wrapper is the result
  of \<^verbatim>\<open>JSON.parse\<close>.  An object is kept as the list of its own properties in
  enumeration order; \<^verbatim>\<open>JSON.parse\<close> never yields two properties with the same key.
  Numbers are kept as integers: the program compares numbers only with the integer
  constants of JSON-RPC and never computes with them.
\<close>

datatype json =
    JNull
  | JBool bool
  | JNum int
  | JStr string
  | JArr "json list"
  | JObj "(string \<times> json) list"

text \<open>Truthiness of a value, as used by \<^verbatim>\<open>!v\<close>, \<^verbatim>\<open>v && ...\<close> and \<^verbatim>\<open>v || ...\<close>.\<close>

fun truthy :: "json \<Rightarrow> bool" where
  "truthy JNull = False"
| "truthy (JBool b) = b"
| "truthy (JNum n) = (n \<noteq> 0)"
| "truthy (JStr s) = (s \<noteq> [])"
| "truthy (JArr xs) = True"
| "truthy (JObj kvs) = True"

text \<open>\<^verbatim>\<open>undefined\<close> is \<open>None\<close>; it is falsy.\<close>

fun truthy_opt :: "json option \<Rightarrow> bool" where
  "truthy_opt None = False"
| "truthy_opt (Some v) = truthy v"

text \<open>\<^verbatim>\<open>typeof v === 'object'\<close>: true of objects, arrays and \<^verbatim>\<open>null\<close>.\<close>

fun typeof_object :: "json \<Rightarrow> bool" where
  "typeof_object JNull = True"
| "typeof_object (JArr xs) = True"
| "typeof_object (JObj kvs) = True"
| "typeof_object v = False"

fun isArray :: "json \<Rightarrow> bool" where
  "isArray (JArr xs) = True"
| "isArray v = False"

text \<open>
  The property read \<^verbatim>\<open>v.k\<close> (or \<^verbatim>\<open>v?.k\<close>) for the property names the program
  uses.  None of them is an array index or a member of a built-in prototype, so the read
  is \<^verbatim>\<open>undefined\<close> on everything but an object that has the key.
\<close>

fun getprop :: "json \<Rightarrow> string \<Rightarrow> json option" where
  "getprop (JObj kvs) k = map_of kvs k"
| "getprop v k = None"

text \<open>\<^verbatim>\<open>a ?? b\<close>: the right operand replaces \<^verbatim>\<open>null\<close> and \<^verbatim>\<open>undefined\<close> only.\<close>

fun nullish :: "json option \<Rightarrow> bool" where
  "nullish None = True"
| "nullish (Some JNull) = True"
| "nullish (Some v) = False"

fun nullish_or :: "json option \<Rightarrow> json \<Rightarrow> json" where
  "nullish_or None d = d"
| "nullish_or (Some JNull) d = d"
| "nullish_or (Some v) d = v"

text \<open>Decimal numerals, for the index keys of \<^verbatim>\<open>Object.entries\<close> on an array.\<close>

definition digit_char :: "nat \<Rightarrow> char" where
  "digit_char d = char_of (48 + d)"

fun show_nat :: "nat \<Rightarrow> string" where
  "show_nat n = (if n < 10 then [digit_char n] else show_nat (n div 10) @ [digit_char (n mod 10)])"

declare show_nat.simps [simp del]

text \<open>\<^verbatim>\<open>toLowerCase\<close> on ASCII text.\<close>

definition to_lower :: "char \<Rightarrow> char" where
  "to_lower c = (if 65 \<le> (of_char c :: nat) \<and> (of_char c :: nat) \<le> 90
                 then char_of ((of_char c :: nat) + 32) else c)"




text \<open>\<^verbatim>\<open>Object.entries(v)\<close> for an object or an array.\<close>

fun entries :: "json \<Rightarrow> (string \<times> json) list" where
  "entries (JObj kvs) = kvs"
| "entries (JArr xs) = zip (map show_nat [0..<length xs]) xs"
| "entries v = []"


text \<open>\<^verbatim>\<open>typeof v\<close> of a parsed value.\<close>

fun typeof :: "json \<Rightarrow> string" where
  "typeof (JBool b) = ''boolean''"
| "typeof (JNum n) = ''number''"
| "typeof (JStr s) = ''string''"
| "typeof v = ''object''"

fun is_string :: "json \<Rightarrow> bool" where
  "is_string (JStr s) = True"
| "is_string v = False"

text \<open>
  Writes to the properties of one object.  An assignment \<^verbatim>\<open>o.k = v\<close> keeps the place of
  an existing key and appends a new one; \<^verbatim>\<open>delete o.k\<close> removes the key.
\<close>

definition set_prop :: "string \<Rightarrow> json \<Rightarrow> (string \<times> json) list \<Rightarrow> (string \<times> json) list" where
  "set_prop k v kvs = AList.update k v kvs"

definition delete_prop :: "string \<Rightarrow> (string \<times> json) list \<Rightarrow> (string \<times> json) list" where
  "delete_prop k kvs = AList.delete k kvs"

text \<open>The values directly below a value, and their sizes.\<close>

fun subvalues :: "json \<Rightarrow> json set" where
  "subvalues (JObj kvs) = snd ` set kvs"
| "subvalues (JArr xs) = set xs"
| "subvalues v = {}"

lemma size_entry_value: "(k, v) \<in> set node \<Longrightarrow> size v < size (JObj node)"
  by (induction node) auto

lemma size_array_element: "v \<in> set xs \<Longrightarrow> size v < size (JArr xs)"
  by (induction xs) auto

lemma size_subvalue: "c \<in> subvalues v \<Longrightarrow> size c < size v"
proof (cases v)
  case (JArr xs)
  assume "c \<in> subvalues v"
  then show ?thesis unfolding JArr subvalues.simps by (rule size_array_element)
next
  case (JObj kvs)
  assume "c \<in> subvalues v"
  then obtain k where "(k, c) \<in> set kvs" unfolding JObj by auto
  then show ?thesis unfolding JObj by (rule size_entry_value)
qed simp_all

lemma size_below_entry:
  assumes "(k, v) \<in> set node" and "c = v \<or> c \<in> subvalues v"
  shows "size c < size (JObj node)"
  using assms size_entry_value[of k v node] size_subvalue[of c v] by auto

lemma set_prop_entries:
  "e \<in> set (set_prop k v node) \<Longrightarrow> e = (k, v) \<or> e \<in> set node"
  unfolding set_prop_def by (induction node) (auto split: if_splits)

lemma map_of_set_prop: "map_of (set_prop k v n) = (map_of n)(k \<mapsto> v)"
  by (simp add: set_prop_def update_conv')

lemma map_of_delete_prop: "map_of (delete_prop k n) = (map_of n)(k := None)"
  by (simp add: delete_prop_def delete_conv')

lemma set_prop_same: "map_of n k = Some v \<Longrightarrow> set_prop k v n = n"
  by (simp add: set_prop_def update_triv)

section \<open>Configuration loader: \<^verbatim>\<open>findServersInConfig\<close> (index.ts)\<close>

text \<open>
  \<^verbatim>\<open>ServerSpec\<close>.  The name is absent (\<^verbatim>\<open>undefined\<close>) or whatever value the document
  holds; \<^verbatim>\<open>args\<close> and \<^verbatim>\<open>env\<close> are copied unchecked from the document.
\<close>

record ServerSpec =
  spec_name :: "json option"
  spec_command :: string
  spec_args :: json
  spec_env :: json

text \<open>
  The guard \<^verbatim>\<open>sv && typeof sv === "object" && typeof sv.command === "string"\<close>
  yields the command string when it holds.
\<close>

definition entry_command :: "json \<Rightarrow> string option" where
  "entry_command sv =
     (if truthy sv \<and> typeof_object sv
      then (case getprop sv ''command'' of Some (JStr c) \<Rightarrow> Some c | _ \<Rightarrow> None)
      else None)"

text \<open>One iteration of the loops over a servers map: \<^verbatim>\<open>out.push\<close> on a valid entry.\<close>

definition push_named :: "ServerSpec list \<Rightarrow> string \<times> json \<Rightarrow> ServerSpec list" where
  "push_named out e =
     (case entry_command (snd e) of
        Some c \<Rightarrow>
          out @ [\<lparr>spec_name = Some (JStr (fst e)), spec_command = c,
                  spec_args = nullish_or (getprop (snd e) ''args'') (JArr []),
                  spec_env = nullish_or (getprop (snd e) ''env'') (JObj [])\<rparr>]
      | None \<Rightarrow> out)"

text \<open>One iteration of the loop over a top-level array; the name is \<^verbatim>\<open>sv.name\<close>.\<close>

definition push_listed :: "ServerSpec list \<Rightarrow> json \<Rightarrow> ServerSpec list" where
  "push_listed out sv =
     (case entry_command sv of
        Some c \<Rightarrow>
          out @ [\<lparr>spec_name = getprop sv ''name'', spec_command = c,
                  spec_args = nullish_or (getprop sv ''args'') (JArr []),
                  spec_env = nullish_or (getprop sv ''env'') (JObj [])\<rparr>]
      | None \<Rightarrow> out)"

text \<open>
  Shapes 1, 1b and 1c: \<^verbatim>\<open>if (cfg.K && typeof cfg.K === "object") for (... of
  Object.entries(cfg.K)) ...\<close>.
\<close>

definition scan_map :: "json \<Rightarrow> string \<Rightarrow> ServerSpec list \<Rightarrow> ServerSpec list" where
  "scan_map cfg k out =
     (case getprop cfg k of
        Some m \<Rightarrow> if truthy m \<and> typeof_object m then foldl push_named out (entries m) else out
      | None \<Rightarrow> out)"

text \<open>Shape 2: \<^verbatim>\<open>if (Array.isArray(cfg)) for (const sv of cfg) ...\<close>.\<close>

definition scan_array :: "json \<Rightarrow> ServerSpec list \<Rightarrow> ServerSpec list" where
  "scan_array cfg out = (case cfg of JArr xs \<Rightarrow> foldl push_listed out xs | _ \<Rightarrow> out)"

text \<open>Shape 3: \<^verbatim>\<open>if (typeof cfg.command === "string") out.push(...)\<close>; no object guard on
  the top level is needed, the early return has excluded everything else.\<close>

definition scan_single :: "json \<Rightarrow> ServerSpec list \<Rightarrow> ServerSpec list" where
  "scan_single cfg out =
     (case getprop cfg ''command'' of
        Some (JStr c) \<Rightarrow>
          out @ [\<lparr>spec_name = getprop cfg ''name'', spec_command = c,
                  spec_args = nullish_or (getprop cfg ''args'') (JArr []),
                  spec_env = nullish_or (getprop cfg ''env'') (JObj [])\<rparr>]
      | _ \<Rightarrow> out)"

definition findServersInConfig :: "json \<Rightarrow> ServerSpec list" where
  "findServersInConfig cfg =
     (if \<not> truthy cfg \<or> \<not> typeof_object cfg then []
      else scan_single cfg
             (scan_array cfg
               (scan_map cfg ''mcpServers''
                 (scan_map cfg ''mcp_servers''
                   (scan_map cfg ''servers'' [])))))"

subsection \<open>The shapes, as the specification words them\<close>

text \<open>
  An entry is valid when its \<^verbatim>\<open>command\<close> is a string; \<^verbatim>\<open>args\<close> defaults to an empty
  list and \<^verbatim>\<open>env\<close> to an empty map.
\<close>

definition has_string_command :: "json \<Rightarrow> bool" where
  "has_string_command sv = (case getprop sv ''command'' of Some (JStr c) \<Rightarrow> True | _ \<Rightarrow> False)"

definition command_of :: "json \<Rightarrow> string" where
  "command_of sv = (case getprop sv ''command'' of Some (JStr c) \<Rightarrow> c | _ \<Rightarrow> [])"

definition spec_of :: "json option \<Rightarrow> json \<Rightarrow> ServerSpec" where
  "spec_of nm sv =
     \<lparr>spec_name = nm, spec_command = command_of sv,
      spec_args = nullish_or (getprop sv ''args'') (JArr []),
      spec_env = nullish_or (getprop sv ''env'') (JObj [])\<rparr>"

text \<open>The valid entries of the servers map stored under key \<open>k\<close>, named by their keys.\<close>

definition shape_map :: "json \<Rightarrow> string \<Rightarrow> ServerSpec list" where
  "shape_map cfg k =
     (case getprop cfg k of
        Some (JObj kvs) \<Rightarrow>
          map (\<lambda>e. spec_of (Some (JStr (fst e))) (snd e)) (filter (\<lambda>e. has_string_command (snd e)) kvs)
      | Some (JArr xs) \<Rightarrow>
          map (\<lambda>e. spec_of (Some (JStr (fst e))) (snd e))
            (filter (\<lambda>e. has_string_command (snd e)) (entries (JArr xs)))
      | _ \<Rightarrow> [])"

text \<open>The valid entries of a top-level array, named by their own \<^verbatim>\<open>name\<close> field.\<close>

definition shape_array :: "json \<Rightarrow> ServerSpec list" where
  "shape_array cfg =
     (case cfg of
        JArr xs \<Rightarrow> map (\<lambda>sv. spec_of (getprop sv ''name'') sv) (filter has_string_command xs)
      | _ \<Rightarrow> [])"

text \<open>The document itself, when it carries a string \<^verbatim>\<open>command\<close>.\<close>

definition shape_single :: "json \<Rightarrow> ServerSpec list" where
  "shape_single cfg = (if has_string_command cfg then [spec_of (getprop cfg ''name'') cfg] else [])"

subsection \<open>The loader returns every matching shape\<close>

lemma has_string_command_object:
  "has_string_command sv \<Longrightarrow> truthy sv \<and> typeof_object sv"
  by (cases sv) (simp_all add: has_string_command_def)

lemma entry_command_eq:
  "entry_command sv = (if has_string_command sv then Some (command_of sv) else None)"
proof (cases "has_string_command sv")
  case True
  then have "truthy sv \<and> typeof_object sv" by (rule has_string_command_object)
  with True show ?thesis
    by (auto simp: entry_command_def has_string_command_def command_of_def
        split: option.splits json.splits)
next
  case False
  then show ?thesis
    by (auto simp: entry_command_def has_string_command_def split: option.splits json.splits)
qed

lemma foldl_push_named:
  "foldl push_named out es =
     out @ map (\<lambda>e. spec_of (Some (JStr (fst e))) (snd e)) (filter (\<lambda>e. has_string_command (snd e)) es)"
  by (induction es arbitrary: out) (simp_all add: push_named_def entry_command_eq spec_of_def)

lemma foldl_push_listed:
  "foldl push_listed out xs =
     out @ map (\<lambda>sv. spec_of (getprop sv ''name'') sv) (filter has_string_command xs)"
  by (induction xs arbitrary: out) (simp_all add: push_listed_def entry_command_eq spec_of_def)

lemma scan_map_eq: "scan_map cfg k out = out @ shape_map cfg k"
proof (cases "getprop cfg k")
  case None
  then show ?thesis by (simp add: scan_map_def shape_map_def)
next
  case (Some m)
  then show ?thesis
    by (cases m) (simp_all add: scan_map_def shape_map_def foldl_push_named)
qed

lemma scan_array_eq: "scan_array cfg out = out @ shape_array cfg"
  by (cases cfg) (simp_all add: scan_array_def shape_array_def foldl_push_listed)

lemma scan_single_eq: "scan_single cfg out = out @ shape_single cfg"
  by (auto simp: scan_single_def shape_single_def has_string_command_def spec_of_def command_of_def
      split: option.splits json.splits)

lemma shapes_of_non_object:
  assumes "\<not> truthy cfg \<or> \<not> typeof_object cfg"
  shows "shape_map cfg k = []" and "shape_array cfg = []" and "shape_single cfg = []"
  using assms
  by (cases cfg; simp add: shape_map_def shape_array_def shape_single_def has_string_command_def)+

text \<open>
  Claim C10.  Whatever the document is, the loader returns the valid entries of the
  \<^verbatim>\<open>servers\<close> map, then those of the \<^verbatim>\<open>mcp_servers\<close> map, then those of the
  \<^verbatim>\<open>mcpServers\<close> map, then those of a top-level array, then the document itself when
  it has a string \<^verbatim>\<open>command\<close>: all matching shapes contribute, in this order, and each
  shape keeps exactly the entries whose \<^verbatim>\<open>command\<close> is a string.
\<close>

theorem findServersInConfig_all_shapes:
  "findServersInConfig cfg =
     shape_map cfg ''servers'' @ shape_map cfg ''mcp_servers'' @ shape_map cfg ''mcpServers''
       @ shape_array cfg @ shape_single cfg"
proof (cases "\<not> truthy cfg \<or> \<not> typeof_object cfg")
  case True
  then show ?thesis
    by (simp only: findServersInConfig_def shapes_of_non_object if_True append_Nil)
next
  case False
  then show ?thesis
    by (simp add: findServersInConfig_def scan_map_eq scan_array_eq scan_single_eq)
qed

definition example_config :: json where
  "example_config =
     JObj [(''servers'', JObj [(''a'', JObj [(''command'', JStr ''x'')]),
                               (''b'', JObj [(''command'', JNum 5)])]),
           (''mcpServers'', JObj [(''c'', JObj [(''command'', JStr ''y''),
                                                (''args'', JArr [JStr ''1''])])]),
           (''command'', JStr ''z'')]"

theorem findServersInConfig_all_shapes_witness:
  "findServersInConfig example_config =
     [\<lparr>spec_name = Some (JStr ''a''), spec_command = ''x'', spec_args = JArr [], spec_env = JObj []\<rparr>,
      \<lparr>spec_name = Some (JStr ''c''), spec_command = ''y'', spec_args = JArr [JStr ''1''],
        spec_env = JObj []\<rparr>,
      \<lparr>spec_name = None, spec_command = ''z'', spec_args = JArr [], spec_env = JObj []\<rparr>]"
  using findServersInConfig_all_shapes [of example_config]
  by (simp add: example_config_def shape_map_def shape_array_def shape_single_def
      has_string_command_def spec_of_def command_of_def)

section \<open>Schema normalizer: \<^verbatim>\<open>normalizeSchema\<close>\<close>

text \<open>
  The source tree holds the normalizer twice.  The file \<^verbatim>\<open>src/schemaFixes.ts\<close> has the
  walk that rewrites \<^verbatim>\<open>"integer"\<close> inside a type union and leaves the union a list;
  the text carried at the end of \<^verbatim>\<open>src/index.ts\<close> (lines 705 to 898) is a later state
  of the same file, which collapses a union to one string, skips nodes with
  \<^verbatim>\<open>$ref\<close>, visits three more containers and sanitizes \<^verbatim>\<open>required\<close>.  Both are
  modelled; the names of the later one end in \<open>_r2\<close>.  \<^verbatim>\<open>inferType\<close> and
  \<^verbatim>\<open>deepClone\<close> are the same in both.

  The walk runs on the result of \<^verbatim>\<open>deepClone\<close>, a fresh tree without shared nodes, so
  the \<^verbatim>\<open>seen\<close> set never stops it and every node is visited once.  It writes only
  into that tree, which is why it is a function from the tree to the rewritten tree.
\<close>

subsection \<open>The recursion block of \<^verbatim>\<open>visit\<close>\<close>

text \<open>
  \<^verbatim>\<open>visit(c)\<close> rewrites the node \<open>c\<close> in place; for the object that holds \<open>c\<close>
  under key \<open>k\<close> this replaces the value stored under \<open>k\<close>.
\<close>

definition on_prop :: "string \<Rightarrow> (json \<Rightarrow> json) \<Rightarrow> (string \<times> json) list \<Rightarrow> (string \<times> json) list" where
  "on_prop k f kvs = map (\<lambda>e. if fst e = k then (fst e, f (snd e)) else e) kvs"

text \<open>\<^verbatim>\<open>for (const [k, v] of Object.entries(o)) visit(v)\<close> and \<^verbatim>\<open>a.forEach(visit)\<close>.\<close>

fun each_value :: "(json \<Rightarrow> json) \<Rightarrow> json \<Rightarrow> json" where
  "each_value f (JObj kvs) = JObj (map (\<lambda>e. (fst e, f (snd e))) kvs)"
| "each_value f (JArr xs) = JArr (map f xs)"
| "each_value f v = v"

text \<open>\<^verbatim>\<open>if (node.K && typeof node.K === 'object') for (... of Object.entries(node.K)) visit(v)\<close>\<close>

definition visit_entries :: "(json \<Rightarrow> json) \<Rightarrow> json \<Rightarrow> json" where
  "visit_entries vis v = (if truthy v \<and> typeof_object v then each_value vis v else v)"

text \<open>\<^verbatim>\<open>if (node.items != null) { if (Array.isArray(node.items)) node.items.forEach(visit)
  else visit(node.items) }\<close>\<close>

definition visit_items :: "(json \<Rightarrow> json) \<Rightarrow> json \<Rightarrow> json" where
  "visit_items vis v = (if v \<noteq> JNull then (if isArray v then each_value vis v else vis v) else v)"

text \<open>\<^verbatim>\<open>if (Array.isArray(node.K)) node.K.forEach(visit)\<close>\<close>

definition visit_elements :: "(json \<Rightarrow> json) \<Rightarrow> json \<Rightarrow> json" where
  "visit_elements vis v = (if isArray v then each_value vis v else v)"

text \<open>\<^verbatim>\<open>if (node.K && typeof node.K === 'object') visit(node.K)\<close>\<close>

definition visit_schema :: "(json \<Rightarrow> json) \<Rightarrow> json \<Rightarrow> json" where
  "visit_schema vis v = (if truthy v \<and> typeof_object v then vis v else v)"

text \<open>
  The block "Recurse common containers", in source order (the first statement is the
  innermost application).  \<^verbatim>\<open>src/schemaFixes.ts\<close> lines 68 to 93:
\<close>

definition recurse :: "(json \<Rightarrow> json) \<Rightarrow> (string \<times> json) list \<Rightarrow> (string \<times> json) list" where
  "recurse vis kvs =
     on_prop ''definitions'' (visit_entries vis)
      (on_prop ''$defs'' (visit_entries vis)
       (on_prop ''allOf'' (visit_elements vis)
        (on_prop ''oneOf'' (visit_elements vis)
         (on_prop ''anyOf'' (visit_elements vis)
          (on_prop ''items'' (visit_items vis)
           (on_prop ''patternProperties'' (visit_entries vis)
            (on_prop ''properties'' (visit_entries vis) kvs)))))))"

text \<open>The later revision, \<^verbatim>\<open>src/index.ts\<close> lines 784 to 822:\<close>

definition recurse_r2 :: "(json \<Rightarrow> json) \<Rightarrow> (string \<times> json) list \<Rightarrow> (string \<times> json) list" where
  "recurse_r2 vis kvs =
     on_prop ''definitions'' (visit_entries vis)
      (on_prop ''$defs'' (visit_entries vis)
       (on_prop ''allOf'' (visit_elements vis)
        (on_prop ''oneOf'' (visit_elements vis)
         (on_prop ''anyOf'' (visit_elements vis)
          (on_prop ''items'' (visit_items vis)
           (on_prop ''dependentSchemas'' (visit_entries vis)
            (on_prop ''propertyNames'' (visit_schema vis)
             (on_prop ''additionalProperties'' (visit_schema vis)
              (on_prop ''patternProperties'' (visit_entries vis)
               (on_prop ''properties'' (visit_entries vis) kvs))))))))))"

subsection \<open>\<^verbatim>\<open>inferType\<close> and \<^verbatim>\<open>collapseTypeUnion\<close>\<close>

text \<open>\<^verbatim>\<open>node.properties && typeof node.properties === 'object'\<close>\<close>

definition has_object_properties :: "(string \<times> json) list \<Rightarrow> bool" where
  "has_object_properties node =
     (case map_of node ''properties'' of Some v \<Rightarrow> truthy v \<and> typeof_object v | None \<Rightarrow> False)"

text \<open>\<^verbatim>\<open>node.items != null\<close>\<close>

definition has_items :: "(string \<times> json) list \<Rightarrow> bool" where
  "has_items node = (\<not> nullish (map_of node ''items''))"

text \<open>\<^verbatim>\<open>node.enum[0]\<close> under the guard \<^verbatim>\<open>Array.isArray(node.enum) && node.enum.length > 0\<close>.\<close>

definition enum_first :: "(string \<times> json) list \<Rightarrow> json option" where
  "enum_first node = (case map_of node ''enum'' of Some (JArr (e # es)) \<Rightarrow> Some e | _ \<Rightarrow> None)"

text \<open>
  \<^verbatim>\<open>inferType\<close>.  The three returns inside the \<^verbatim>\<open>enum\<close> block cover every parsed
  value; the model keeps the fall-through to the structural tests all the same.
\<close>

definition inferType :: "(string \<times> json) list \<Rightarrow> string" where
  "inferType node =
     (let structural =
            (if has_object_properties node then ''object''
             else if has_items node then ''array''
             else ''string'')
      in case enum_first node of
           Some e \<Rightarrow>
             (let t = typeof e in
              if t = ''string'' \<or> t = ''number'' \<or> t = ''boolean'' then t
              else if t = ''object'' \<and> \<not> isArray e then ''object''
              else if isArray e then ''array''
              else structural)
         | None \<Rightarrow> structural)"

text \<open>\<^verbatim>\<open>types.filter((t) => typeof t === 'string')\<close>\<close>

fun strings_of :: "json list \<Rightarrow> string list" where
  "strings_of [] = []"
| "strings_of (JStr s # ts) = s # strings_of ts"
| "strings_of (t # ts) = strings_of ts"

text \<open>\<^verbatim>\<open>Array.from(new Set(xs))\<close>: the first occurrence of every member, in order.\<close>

fun dedup :: "'a list \<Rightarrow> 'a list" where
  "dedup [] = []"
| "dedup (x # xs) = x # dedup (removeAll x xs)"

definition integer_to_number :: "string \<Rightarrow> string" where
  "integer_to_number t = (if t = ''integer'' then ''number'' else t)"

text \<open>The list \<^verbatim>\<open>normalized\<close> of \<^verbatim>\<open>collapseTypeUnion\<close>.\<close>

definition normalized_types :: "json list \<Rightarrow> string list" where
  "normalized_types types =
     dedup (filter (\<lambda>t. t \<noteq> ''null'' \<and> t \<noteq> ''undefined'' \<and> t \<noteq> [])
              (map integer_to_number (strings_of types)))"

definition priority :: "string list" where
  "priority = [''object'', ''array'', ''string'', ''number'', ''boolean'']"

text \<open>The four tests on \<^verbatim>\<open>typeof node.enum[0]\<close>.\<close>

definition enum_candidate :: "string list \<Rightarrow> (string \<times> json) list \<Rightarrow> string option" where
  "enum_candidate normalized node =
     (case enum_first node of
        Some e \<Rightarrow>
          (let t = typeof e in
           if t = ''string'' \<and> ''string'' \<in> set normalized then Some ''string''
           else if t = ''number'' \<and> ''number'' \<in> set normalized then Some ''number''
           else if t = ''boolean'' \<and> ''boolean'' \<in> set normalized then Some ''boolean''
           else if t = ''object'' \<and> ''object'' \<in> set normalized then Some ''object''
           else None)
      | None \<Rightarrow> None)"

text \<open>\<^verbatim>\<open>collapseTypeUnion(types, node)\<close>; \<open>None\<close> is \<^verbatim>\<open>undefined\<close>.\<close>

definition collapseTypeUnion :: "json list \<Rightarrow> (string \<times> json) list \<Rightarrow> string option" where
  "collapseTypeUnion types node =
     (let normalized = normalized_types types in
      case normalized of
        [] \<Rightarrow> None
      | [t] \<Rightarrow> Some t
      | t # _ \<Rightarrow>
          if has_object_properties node \<and> ''object'' \<in> set normalized then Some ''object''
          else if has_items node \<and> ''array'' \<in> set normalized then Some ''array''
          else (case enum_candidate normalized node of
                  Some c \<Rightarrow> Some c
                | None \<Rightarrow>
                    (case find (\<lambda>p. p \<in> set normalized) priority of
                       Some p \<Rightarrow> Some p
                     | None \<Rightarrow> Some t)))"

subsection \<open>The block "Fix type"\<close>

text \<open>\<^verbatim>\<open>node.type.map((t) => (t === 'integer' ? 'number' : t))\<close>\<close>

definition mapped_integer :: "json list \<Rightarrow> json list" where
  "mapped_integer ts = map (\<lambda>t. if t = JStr ''integer'' then JStr ''number'' else t) ts"

text \<open>\<^verbatim>\<open>src/schemaFixes.ts\<close> lines 49 to 67.  \<^verbatim>\<open>node.type == null\<close> holds of \<^verbatim>\<open>null\<close>
  and of a missing key.\<close>

definition fix_type :: "(string \<times> json) list \<Rightarrow> (string \<times> json) list" where
  "fix_type node =
     (case map_of node ''type'' of
        Some (JStr s) \<Rightarrow> if s = ''integer'' then set_prop ''type'' (JStr ''number'') node else node
      | Some (JArr ts) \<Rightarrow>
          (let mapped = mapped_integer ts
           in if length mapped = 0 then set_prop ''type'' (JStr ''string'') node
              else set_prop ''type'' (JArr mapped) node)
      | Some JNull \<Rightarrow>
          (let inferred = inferType node
           in if inferred \<noteq> [] then set_prop ''type'' (JStr inferred) node else node)
      | None \<Rightarrow>
          (let inferred = inferType node
           in if inferred \<noteq> [] then set_prop ''type'' (JStr inferred) node else node)
      | Some v \<Rightarrow> node)"

text \<open>\<^verbatim>\<open>src/index.ts\<close> lines 756 to 782.\<close>

definition fix_type_r2 :: "(string \<times> json) list \<Rightarrow> (string \<times> json) list" where
  "fix_type_r2 node =
     (case map_of node ''type'' of
        Some (JStr s) \<Rightarrow> if s = ''integer'' then set_prop ''type'' (JStr ''number'') node else node
      | Some (JArr ts) \<Rightarrow>
          (case collapseTypeUnion ts node of
             Some collapsed \<Rightarrow>
               if collapsed \<noteq> [] then set_prop ''type'' (JStr collapsed) node
               else set_prop ''type'' (JStr ''string'') node
           | None \<Rightarrow> set_prop ''type'' (JStr ''string'') node)
      | Some JNull \<Rightarrow>
          (if \<not> truthy_opt (map_of node ''$ref'') then
             (let inferred = inferType node
              in if inferred \<noteq> [] then set_prop ''type'' (JStr inferred) node else node)
           else node)
      | None \<Rightarrow>
          (if \<not> truthy_opt (map_of node ''$ref'') then
             (let inferred = inferType node
              in if inferred \<noteq> [] then set_prop ''type'' (JStr inferred) node else node)
           else node)
      | Some v \<Rightarrow> node)"

text \<open>The block "Sanitize 'required'", \<^verbatim>\<open>src/index.ts\<close> lines 824 to 837.\<close>

definition fix_required :: "(string \<times> json) list \<Rightarrow> (string \<times> json) list" where
  "fix_required node =
     (case map_of node ''required'' of
        None \<Rightarrow> node
      | Some JNull \<Rightarrow> node
      | Some (JArr xs) \<Rightarrow>
          (let filtered = filter is_string xs
           in if length filtered \<noteq> length xs then set_prop ''required'' (JArr filtered) node else node)
      | Some v \<Rightarrow> delete_prop ''required'' node)"

subsection \<open>The recursion block touches each entry under its own key\<close>

text \<open>What the recursion block does to the value stored under key \<open>k\<close>.\<close>

definition descend :: "(json \<Rightarrow> json) \<Rightarrow> string \<Rightarrow> json \<Rightarrow> json" where
  "descend vis k v =
     (if k \<in> {''properties'', ''patternProperties'', ''$defs'', ''definitions''} then visit_entries vis v
      else if k = ''items'' then visit_items vis v
      else if k \<in> {''anyOf'', ''oneOf'', ''allOf''} then visit_elements vis v
      else v)"

definition descend_r2 :: "(json \<Rightarrow> json) \<Rightarrow> string \<Rightarrow> json \<Rightarrow> json" where
  "descend_r2 vis k v =
     (if k \<in> {''properties'', ''patternProperties'', ''dependentSchemas'', ''$defs'', ''definitions''}
      then visit_entries vis v
      else if k \<in> {''additionalProperties'', ''propertyNames''} then visit_schema vis v
      else if k = ''items'' then visit_items vis v
      else if k \<in> {''anyOf'', ''oneOf'', ''allOf''} then visit_elements vis v
      else v)"

definition map_entries :: "(string \<Rightarrow> json \<Rightarrow> json) \<Rightarrow> (string \<times> json) list \<Rightarrow> (string \<times> json) list" where
  "map_entries h kvs = map (\<lambda>e. (fst e, h (fst e) (snd e))) kvs"

lemma map_entries_fuse:
  "map_entries g (map_entries h kvs) = map_entries (\<lambda>k v. g k (h k v)) kvs"
  by (simp add: map_entries_def)

lemma on_prop_as_map_entries: "on_prop k f kvs = map_entries (\<lambda>k' v. if k' = k then f v else v) kvs"
  by (simp add: on_prop_def map_entries_def)

lemma map_entries_cong:
  "(\<And>k v. (k, v) \<in> set kvs \<Longrightarrow> g k v = h k v) \<Longrightarrow> map_entries g kvs = map_entries h kvs"
  by (auto simp: map_entries_def)

lemma recurse_map: "recurse vis kvs = map_entries (descend vis) kvs"
  unfolding recurse_def on_prop_as_map_entries map_entries_fuse
  by (rule map_entries_cong) (simp add: descend_def)

lemma recurse_r2_map: "recurse_r2 vis kvs = map_entries (descend_r2 vis) kvs"
  unfolding recurse_r2_def on_prop_as_map_entries map_entries_fuse
  by (rule map_entries_cong) (simp add: descend_r2_def)

lemma each_value_cong: "(\<And>c. c \<in> subvalues v \<Longrightarrow> f c = g c) \<Longrightarrow> each_value f v = each_value g v"
  by (cases v) auto

lemma descend_cong:
  "(\<And>c. c = v \<or> c \<in> subvalues v \<Longrightarrow> f c = g c) \<Longrightarrow> descend f k v = descend g k v"
  using each_value_cong[of v f g]
  by (simp add: descend_def visit_entries_def visit_items_def visit_elements_def)

lemma descend_r2_cong:
  "(\<And>c. c = v \<or> c \<in> subvalues v \<Longrightarrow> f c = g c) \<Longrightarrow> descend_r2 f k v = descend_r2 g k v"
  using each_value_cong[of v f g]
  by (simp add: descend_r2_def visit_entries_def visit_items_def visit_elements_def visit_schema_def)

lemma recurse_cong [fundef_cong]:
  assumes "kvs = kvs'"
    and "\<And>k v c. (k, v) \<in> set kvs' \<Longrightarrow> c = v \<or> c \<in> subvalues v \<Longrightarrow> f c = g c"
  shows "recurse f kvs = recurse g kvs'"
  unfolding recurse_map assms(1)
  by (rule map_entries_cong, rule descend_cong) (rule assms(2))

lemma recurse_r2_cong [fundef_cong]:
  assumes "kvs = kvs'"
    and "\<And>k v c. (k, v) \<in> set kvs' \<Longrightarrow> c = v \<or> c \<in> subvalues v \<Longrightarrow> f c = g c"
  shows "recurse_r2 f kvs = recurse_r2 g kvs'"
  unfolding recurse_r2_map assms(1)
  by (rule map_entries_cong, rule descend_r2_cong) (rule assms(2))

subsection \<open>\<^verbatim>\<open>visit\<close> and \<^verbatim>\<open>normalizeSchema\<close>\<close>

lemma size_mapped_integer: "size (JArr (mapped_integer ts)) = size (JArr ts)"
  by (induction ts) (auto simp: mapped_integer_def)

lemma fix_type_entries:
  assumes "(k, v) \<in> set (fix_type node)" and "c = v \<or> c \<in> subvalues v"
  shows "size c < size (JObj node)"
proof (cases "(k, v) \<in> set node")
  case True
  then show ?thesis using assms(2) by (rule size_below_entry)
next
  case False
  then consider (str) s where "v = JStr s"
    | (arr) ts where "map_of node ''type'' = Some (JArr ts)" "v = JArr (mapped_integer ts)"
    using assms(1)
    by (auto simp: fix_type_def Let_def split: option.splits json.splits if_splits
        dest!: set_prop_entries)
  then show ?thesis
  proof cases
    case str
    then show ?thesis using assms(2) by auto
  next
    case arr
    have "(''type'', JArr ts) \<in> set node" using arr(1) by (rule map_of_SomeD)
    then have "size (JArr ts) < size (JObj node)" by (rule size_entry_value)
    then have "size v < size (JObj node)" using arr(2) size_mapped_integer[of ts] by simp
    then show ?thesis using assms(2) size_subvalue[of c v] by auto
  qed
qed

lemma fix_type_r2_entries:
  assumes "(k, v) \<in> set (fix_type_r2 node)" and "c = v \<or> c \<in> subvalues v"
  shows "size c < size (JObj node)"
proof (cases "(k, v) \<in> set node")
  case True
  then show ?thesis using assms(2) by (rule size_below_entry)
next
  case False
  then obtain s where "v = JStr s"
    using assms(1)
    by (auto simp: fix_type_r2_def Let_def split: option.splits json.splits if_splits
        dest!: set_prop_entries)
  then show ?thesis using assms(2) by auto
qed

text \<open>
  \<^verbatim>\<open>visit\<close> of \<^verbatim>\<open>src/schemaFixes.ts\<close> (lines 44 to 94).  It returns at once on a value
  that is not an object.  It has no guard against arrays: on an array it adds a property
  \<^verbatim>\<open>type\<close> to the array object, finds none of the container keys and stops; that
  property is not an element of the array, no statement of the program reads it, and
  \<^verbatim>\<open>JSON.stringify\<close> omits it, so the array is unchanged as a JSON value.
\<close>

function (sequential) visit :: "json \<Rightarrow> json" where
  "visit (JObj node) = JObj (recurse visit (fix_type node))"
| "visit v = v"
  by pat_completeness auto
termination
  by (relation "measure size")
    (simp, simp only: in_measure, erule fix_type_entries, assumption)

text \<open>\<^verbatim>\<open>visit\<close> of the later revision (\<^verbatim>\<open>src/index.ts\<close> lines 748 to 838), which returns at
  once on arrays too.\<close>

function (sequential) visit_r2 :: "json \<Rightarrow> json" where
  "visit_r2 (JObj node) = JObj (fix_required (recurse_r2 visit_r2 (fix_type_r2 node)))"
| "visit_r2 v = v"
  by pat_completeness auto
termination
  by (relation "measure size")
    (simp, simp only: in_measure, erule fix_type_r2_entries, assumption)

text \<open>
  \<^verbatim>\<open>deepClone\<close> is \<^verbatim>\<open>JSON.parse(JSON.stringify(v))\<close> on objects and the identity on the
  rest.  On a parsed value the round trip builds an equal value out of fresh objects;
  values here have no identity, so the copy is the value.
\<close>

definition deepClone :: "json \<Rightarrow> json" where
  "deepClone v = v"

definition normalizeSchema :: "json \<Rightarrow> json" where
  "normalizeSchema schema = visit (deepClone schema)"

definition normalizeSchema_r2 :: "json \<Rightarrow> json" where
  "normalizeSchema_r2 schema = visit_r2 (deepClone schema)"

subsection \<open>A second pass changes nothing\<close>

definition shape_preserving :: "(json \<Rightarrow> json) \<Rightarrow> bool" where
  "shape_preserving vis = (\<forall>u. case u of JObj n \<Rightarrow> (\<exists>n'. vis u = JObj n') | _ \<Rightarrow> vis u = u)"

lemma shape_preserving_visit: "shape_preserving visit"
  by (simp add: shape_preserving_def split: json.splits)

lemma shape_preserving_visit_r2: "shape_preserving visit_r2"
  by (simp add: shape_preserving_def split: json.splits)

lemma each_value_twice:
  assumes "\<And>c. c \<in> subvalues v \<Longrightarrow> vis (vis c) = vis c"
  shows "each_value vis (each_value vis v) = each_value vis v"
  using assms by (cases v) auto

lemma visit_entries_twice:
  assumes "\<And>c. c \<in> subvalues v \<Longrightarrow> vis (vis c) = vis c"
  shows "visit_entries vis (visit_entries vis v) = visit_entries vis v"
  using each_value_twice[of v vis, OF assms] by (cases v) (auto simp: visit_entries_def)

lemma visit_elements_twice:
  assumes "\<And>c. c \<in> subvalues v \<Longrightarrow> vis (vis c) = vis c"
  shows "visit_elements vis (visit_elements vis v) = visit_elements vis v"
  using each_value_twice[of v vis, OF assms] by (cases v) (auto simp: visit_elements_def)

lemma shape_preserving_object:
  "shape_preserving vis \<Longrightarrow> \<exists>n'. vis (JObj n) = JObj n'"
  unfolding shape_preserving_def by (drule spec[of _ "JObj n"]) simp

lemma shape_preserving_other:
  "shape_preserving vis \<Longrightarrow> (\<And>n. v \<noteq> JObj n) \<Longrightarrow> vis v = v"
  unfolding shape_preserving_def by (drule spec[of _ v]) (cases v; auto)

lemma visit_items_twice:
  assumes "shape_preserving vis"
    and "\<And>c. c = v \<or> c \<in> subvalues v \<Longrightarrow> vis (vis c) = vis c"
  shows "visit_items vis (visit_items vis v) = visit_items vis v"
proof (cases v)
  case (JArr xs)
  have "each_value vis (each_value vis v) = each_value vis v"
    by (rule each_value_twice) (simp add: assms(2))
  then show ?thesis using JArr by (simp add: visit_items_def)
next
  case (JObj n)
  obtain n' where n': "vis v = JObj n'"
    using shape_preserving_object[OF assms(1), of n] JObj by auto
  have "vis (vis v) = vis v" by (simp add: assms(2))
  then show ?thesis using JObj n' by (simp add: visit_items_def)
next
  case JNull
  then show ?thesis by (simp add: visit_items_def)
next
  case (JBool b)
  then have "vis v = v" using shape_preserving_other[OF assms(1), of v] by simp
  then show ?thesis using JBool by (simp add: visit_items_def)
next
  case (JNum i)
  then have "vis v = v" using shape_preserving_other[OF assms(1), of v] by simp
  then show ?thesis using JNum by (simp add: visit_items_def)
next
  case (JStr s)
  then have "vis v = v" using shape_preserving_other[OF assms(1), of v] by simp
  then show ?thesis using JStr by (simp add: visit_items_def)
qed

lemma visit_schema_twice:
  assumes "shape_preserving vis" and "vis (vis v) = vis v"
  shows "visit_schema vis (visit_schema vis v) = visit_schema vis v"
proof (cases "\<exists>n. v = JObj n")
  case True
  then obtain n where n: "v = JObj n" by blast
  obtain n' where n': "vis v = JObj n'"
    using shape_preserving_object[OF assms(1), of n] n by auto
  show ?thesis using n n' assms(2) by (simp add: visit_schema_def)
next
  case False
  then have "vis v = v" using shape_preserving_other[OF assms(1), of v] by simp
  then show ?thesis by (simp add: visit_schema_def)
qed

lemma descend_twice:
  assumes "shape_preserving vis"
    and "\<And>c. c = v \<or> c \<in> subvalues v \<Longrightarrow> vis (vis c) = vis c"
  shows "descend vis k (descend vis k v) = descend vis k v"
  using visit_entries_twice[of v vis] visit_elements_twice[of v vis]
    visit_items_twice[of vis v, OF assms(1)] assms(2)
  by (simp add: descend_def)

lemma descend_r2_twice:
  assumes "shape_preserving vis"
    and "\<And>c. c = v \<or> c \<in> subvalues v \<Longrightarrow> vis (vis c) = vis c"
  shows "descend_r2 vis k (descend_r2 vis k v) = descend_r2 vis k v"
  using visit_entries_twice[of v vis] visit_elements_twice[of v vis]
    visit_items_twice[of vis v, OF assms(1)] visit_schema_twice[of vis v, OF assms(1)] assms(2)
  by (simp add: descend_r2_def)

lemma delete_prop_absent: "map_of n k = None \<Longrightarrow> delete_prop k n = n"
  by (simp add: delete_prop_def map_of_eq_None_iff)

lemma map_of_map_entries: "map_of (map_entries h n) k = map_option (h k) (map_of n k)"
  by (induction n) (auto simp: map_entries_def)

lemma map_entries_set_prop: "map_entries h (set_prop k v n) = set_prop k (h k v) (map_entries h n)"
  by (induction n) (auto simp: map_entries_def set_prop_def)

lemma map_entries_delete_prop: "map_entries h (delete_prop k n) = delete_prop k (map_entries h n)"
  by (induction n) (auto simp: map_entries_def delete_prop_def)

lemma set_dedup: "set (dedup xs) = set xs"
  by (induction xs rule: dedup.induct) auto

lemma normalized_types_members:
  "t \<in> set (normalized_types types) \<Longrightarrow> t \<noteq> ''integer'' \<and> t \<noteq> []"
  by (auto simp: normalized_types_def set_dedup integer_to_number_def split: if_splits)

lemma find_priority: "find P priority = Some p \<Longrightarrow> p \<in> set priority"
  by (auto simp: find_Some_iff)

lemma collapseTypeUnion_result:
  assumes "collapseTypeUnion types node = Some c"
  shows "c \<in> set (normalized_types types) \<or> c \<in> set priority"
proof -
  have enum: "enum_candidate nz node = Some c \<Longrightarrow> c \<in> set nz" for nz
    by (auto simp: enum_candidate_def Let_def split: option.splits if_splits)
  show ?thesis
    using assms
    by (auto simp: collapseTypeUnion_def Let_def priority_def
        split: list.splits if_splits option.splits dest!: enum find_priority[unfolded priority_def])
qed

lemma collapseTypeUnion_settled:
  "collapseTypeUnion types node = Some c \<Longrightarrow> c \<noteq> ''integer'' \<and> c \<noteq> []"
  by (drule collapseTypeUnion_result) (auto simp: priority_def dest: normalized_types_members)

lemma inferType_settled: "inferType node \<noteq> ''integer'' \<and> inferType node \<noteq> []"
proof -
  have "typeof e \<noteq> ''integer'' \<and> typeof e \<noteq> []" for e by (cases e) simp_all
  then show ?thesis by (auto simp: inferType_def Let_def split: option.splits)
qed

fun settled :: "json option \<Rightarrow> bool" where
  "settled (Some (JStr s)) = (s \<noteq> ''integer'')"
| "settled (Some (JArr ts)) = (ts \<noteq> [] \<and> mapped_integer ts = ts)"
| "settled (Some JNull) = False"
| "settled None = False"
| "settled (Some v) = True"

fun settled_r2 :: "json option \<Rightarrow> bool \<Rightarrow> bool" where
  "settled_r2 (Some (JStr s)) r = (s \<noteq> ''integer'')"
| "settled_r2 (Some (JArr ts)) r = False"
| "settled_r2 (Some JNull) r = r"
| "settled_r2 None r = r"
| "settled_r2 (Some v) r = True"

lemma mapped_integer_twice: "mapped_integer (mapped_integer ts) = mapped_integer ts"
  by (induction ts) (auto simp: mapped_integer_def)

lemma fix_type_settles: "settled (map_of (fix_type node) ''type'')"
proof (cases "map_of node ''type''")
  case None
  then show ?thesis using inferType_settled[of node] by (simp add: fix_type_def map_of_set_prop)
next
  case (Some t)
  then show ?thesis
    using inferType_settled[of node]
    by (cases t) (auto simp: fix_type_def map_of_set_prop Let_def mapped_integer_twice)
qed

lemma fix_type_of_settled: "settled (map_of node ''type'') \<Longrightarrow> fix_type node = node"
proof (cases "map_of node ''type''")
  case None
  assume "settled (map_of node ''type'')"
  then show ?thesis using None by simp
next
  case (Some t)
  assume "settled (map_of node ''type'')"
  then show ?thesis
    using Some
    by (cases t)
      (auto simp: fix_type_def Let_def set_prop_same)
qed

lemma fix_type_r2_settles:
  "settled_r2 (map_of (fix_type_r2 node) ''type'') (truthy_opt (map_of node ''$ref''))"
proof (cases "map_of node ''type''")
  case None
  then show ?thesis using inferType_settled[of node] by (simp add: fix_type_r2_def map_of_set_prop)
next
  case (Some t)
  then show ?thesis
    using inferType_settled[of node]
    by (cases t)
      (auto simp: fix_type_r2_def map_of_set_prop Let_def split: option.splits
        dest: collapseTypeUnion_settled)
qed

lemma fix_type_r2_of_settled:
  "settled_r2 (map_of node ''type'') (truthy_opt (map_of node ''$ref'')) \<Longrightarrow> fix_type_r2 node = node"
proof (cases "map_of node ''type''")
  case None
  assume "settled_r2 (map_of node ''type'') (truthy_opt (map_of node ''$ref''))"
  then show ?thesis using None by (simp add: fix_type_r2_def)
next
  case (Some t)
  assume "settled_r2 (map_of node ''type'') (truthy_opt (map_of node ''$ref''))"
  then show ?thesis
    using Some by (cases t) (auto simp: fix_type_r2_def)
qed

lemma fix_type_r2_other: "k \<noteq> ''type'' \<Longrightarrow> map_of (fix_type_r2 node) k = map_of node k"
  by (auto simp: fix_type_r2_def map_of_set_prop Let_def split: option.splits json.splits)

lemma fix_required_other: "k \<noteq> ''required'' \<Longrightarrow> map_of (fix_required node) k = map_of node k"
  by (auto simp: fix_required_def map_of_set_prop map_of_delete_prop Let_def
      split: option.splits json.splits)

lemma fix_required_twice: "fix_required (fix_required node) = fix_required node"
proof (cases "map_of node ''required''")
  case None
  then show ?thesis by (simp add: fix_required_def)
next
  case (Some r)
  then show ?thesis
    by (cases r)
      (auto simp: fix_required_def map_of_set_prop map_of_delete_prop Let_def)
qed

lemma fix_required_map_entries:
  assumes "\<And>v. h ''required'' v = v"
  shows "map_entries h (fix_required node) = fix_required (map_entries h node)"
proof (cases "map_of node ''required''")
  case None
  then show ?thesis by (simp add: fix_required_def map_of_map_entries)
next
  case (Some r)
  then show ?thesis
    by (cases r)
      (auto simp: fix_required_def map_of_map_entries assms Let_def
        map_entries_set_prop map_entries_delete_prop)
qed

lemma descend_other:
  "map_option (descend vis ''type'') x = x"
  by (cases x) (simp_all add: descend_def)

lemma descend_r2_other:
  "map_option (descend_r2 vis ''type'') x = x"
  "map_option (descend_r2 vis ''$ref'') x = x"
  "descend_r2 vis ''required'' v = v"
  by (cases x; simp add: descend_r2_def)+

lemma visit_idem: "visit (visit j) = visit j"
proof (induction j rule: measure_induct_rule[where f = size])
  case (less j)
  show ?case
  proof (cases j)
    case (JObj node)
    let ?D = "map_entries (descend visit)"
    have sub: "visit (visit c) = visit c"
      if "(k, v) \<in> set (fix_type node)" "c = v \<or> c \<in> subvalues v" for k v c
      using less[of c] fix_type_entries[OF that] JObj by simp
    have DD: "?D (?D (fix_type node)) = ?D (fix_type node)"
      unfolding map_entries_fuse
      by (rule map_entries_cong, rule descend_twice[OF shape_preserving_visit]) (rule sub)
    have "settled (map_of (?D (fix_type node)) ''type'')"
      using fix_type_settles[of node] by (simp add: map_of_map_entries descend_other descend_r2_other)
    then have T: "fix_type (?D (fix_type node)) = ?D (fix_type node)"
      by (rule fix_type_of_settled)
    show ?thesis unfolding JObj by (simp add: recurse_map T DD)
  qed simp_all
qed

lemma visit_r2_idem: "visit_r2 (visit_r2 j) = visit_r2 j"
proof (induction j rule: measure_induct_rule[where f = size])
  case (less j)
  show ?case
  proof (cases j)
    case (JObj node)
    let ?D = "map_entries (descend_r2 visit_r2)"
    let ?x = "fix_required (?D (fix_type_r2 node))"
    have sub: "visit_r2 (visit_r2 c) = visit_r2 c"
      if "(k, v) \<in> set (fix_type_r2 node)" "c = v \<or> c \<in> subvalues v" for k v c
      using less[of c] fix_type_r2_entries[OF that] JObj by simp
    have DD: "?D (?D (fix_type_r2 node)) = ?D (fix_type_r2 node)"
      unfolding map_entries_fuse
      by (rule map_entries_cong, rule descend_r2_twice[OF shape_preserving_visit_r2]) (rule sub)
    have ty: "map_of ?x ''type'' = map_of (fix_type_r2 node) ''type''"
      by (simp add: fix_required_other map_of_map_entries descend_r2_other)
    have rf: "map_of ?x ''$ref'' = map_of node ''$ref''"
      by (simp add: fix_required_other map_of_map_entries descend_r2_other fix_type_r2_other)
    have T: "fix_type_r2 ?x = ?x"
      by (rule fix_type_r2_of_settled) (simp only: ty rf fix_type_r2_settles)
    have "?D ?x = fix_required (?D (?D (fix_type_r2 node)))"
      by (rule fix_required_map_entries) (rule descend_r2_other)
    then have D: "?D ?x = ?x" by (simp only: DD)
    show ?thesis unfolding JObj by (simp add: recurse_r2_map T D fix_required_twice)
  qed simp_all
qed

subsection \<open>Idempotence\<close>

text \<open>
  Claim C7.  Schema normalization is idempotent: normalizing a normalized schema returns
  it unchanged.  This holds of \<^verbatim>\<open>normalizeSchema\<close> as it stands in
  \<^verbatim>\<open>src/schemaFixes.ts\<close> and of its later revision, for every JSON value given as
  the schema.
\<close>

theorem normalizeSchema_idempotent:
  "normalizeSchema (normalizeSchema s) = normalizeSchema s \<and>
   normalizeSchema_r2 (normalizeSchema_r2 s) = normalizeSchema_r2 s"
  by (simp add: normalizeSchema_def normalizeSchema_r2_def deepClone_def visit_idem visit_r2_idem)

definition example_schema :: json where
  "example_schema =
     JObj [(''properties'',
             JObj [(''n'', JObj [(''type'', JStr ''integer'')]),
                   (''u'', JObj [(''type'', JArr [JStr ''integer'', JStr ''null''])])]),
           (''required'', JArr [JStr ''n'', JNum 5])]"

lemma normalizeSchema_example:
  "normalizeSchema example_schema =
     JObj [(''properties'',
             JObj [(''n'', JObj [(''type'', JStr ''number'')]),
                   (''u'', JObj [(''type'', JArr [JStr ''number'', JStr ''null''])])]),
           (''required'', JArr [JStr ''n'', JNum 5]),
           (''type'', JStr ''object'')]"
  by (simp add: example_schema_def normalizeSchema_def deepClone_def fix_type_def inferType_def
      enum_first_def has_object_properties_def mapped_integer_def recurse_map map_entries_def
      descend_def visit_entries_def set_prop_def)

lemma normalizeSchema_r2_example:
  "normalizeSchema_r2 example_schema =
     JObj [(''properties'',
             JObj [(''n'', JObj [(''type'', JStr ''number'')]),
                   (''u'', JObj [(''type'', JStr ''number'')])]),
           (''required'', JArr [JStr ''n'']),
           (''type'', JStr ''object'')]"
  by (simp add: example_schema_def normalizeSchema_r2_def deepClone_def fix_type_r2_def
      inferType_def enum_first_def has_object_properties_def collapseTypeUnion_def
      normalized_types_def integer_to_number_def recurse_r2_map map_entries_def descend_r2_def
      visit_entries_def fix_required_def set_prop_def)

theorem normalizeSchema_idempotent_witness:
  "normalizeSchema (normalizeSchema example_schema) =
     JObj [(''properties'',
             JObj [(''n'', JObj [(''type'', JStr ''number'')]),
                   (''u'', JObj [(''type'', JArr [JStr ''number'', JStr ''null''])])]),
           (''required'', JArr [JStr ''n'', JNum 5]),
           (''type'', JStr ''object'')] \<and>
   normalizeSchema_r2 (normalizeSchema_r2 example_schema) =
     JObj [(''properties'',
             JObj [(''n'', JObj [(''type'', JStr ''number'')]),
                   (''u'', JObj [(''type'', JStr ''number'')])]),
           (''required'', JArr [JStr ''n'']),
           (''type'', JStr ''object'')]"
  using normalizeSchema_idempotent [of example_schema]
  by (simp only: normalizeSchema_example normalizeSchema_r2_example)

subsection \<open>What becomes of a type union\<close>

lemma visit_type:
  "getprop (visit (JObj node)) ''type'' = map_of (fix_type node) ''type''"
  by (simp add: recurse_map map_of_map_entries descend_other)

lemma visit_r2_type:
  "getprop (visit_r2 (JObj node)) ''type'' = map_of (fix_type_r2 node) ''type''"
  by (simp add: recurse_r2_map fix_required_other map_of_map_entries descend_r2_other)

lemma collapseTypeUnion_None: "collapseTypeUnion ts node = None \<longleftrightarrow> normalized_types ts = []"
  by (auto simp: collapseTypeUnion_def Let_def split: list.splits option.splits)

lemma collapseTypeUnion_single: "normalized_types ts = [c] \<Longrightarrow> collapseTypeUnion ts node = Some c"
  by (simp add: collapseTypeUnion_def)

lemma enum_candidate_member: "enum_candidate nz node = Some c \<Longrightarrow> c \<in> set nz \<and> c \<in> set priority"
  by (auto simp: enum_candidate_def priority_def Let_def split: option.splits if_splits)

lemma collapseTypeUnion_member:
  "collapseTypeUnion ts node = Some c \<Longrightarrow> c \<in> set (normalized_types ts)"
  by (auto simp: collapseTypeUnion_def Let_def find_Some_iff
      split: list.splits if_splits option.splits dest: enum_candidate_member)

lemma find_in_list: "find P xs = Some p \<Longrightarrow> p \<in> set xs"
  by (induction xs) (auto split: if_splits)

lemma collapseTypeUnion_priority:
  assumes "collapseTypeUnion ts node = Some c"
    and "set (normalized_types ts) \<inter> set priority \<noteq> {}"
  shows "c \<in> set priority"
proof (cases "normalized_types ts")
  case Nil
  then show ?thesis using assms(2) by simp
next
  case (Cons t rest)
  show ?thesis
  proof (cases rest)
    case Nil
    then show ?thesis using assms Cons by (simp add: collapseTypeUnion_def)
  next
    case (Cons t' rest')
    let ?nz = "normalized_types ts"
    have nz: "?nz = t # t' # rest'" using \<open>?nz = t # rest\<close> Cons by simp
    obtain p where p: "p \<in> set priority" "p \<in> set ?nz"
      using assms(2) by blast
    then obtain q where q: "find (\<lambda>p. p \<in> set ?nz) priority = Some q"
      by (cases "find (\<lambda>p. p \<in> set ?nz) priority") (auto simp: find_None_iff)
    then have qp: "q \<in> set priority" by (rule find_in_list)
    have obj: "''object'' \<in> set priority" and arr: "''array'' \<in> set priority"
      by (simp_all add: priority_def)
    have "c = ''object'' \<or> c = ''array'' \<or> enum_candidate ?nz node = Some c \<or> c = q"
      using assms(1) q unfolding collapseTypeUnion_def Let_def nz[symmetric]
      by (simp add: nz split: if_splits option.splits)
    then show ?thesis
      using obj arr qp enum_candidate_member[of ?nz node c] by blast
  qed
qed

lemma collapseTypeUnion_first:
  assumes "collapseTypeUnion ts node = Some c"
    and "set (normalized_types ts) \<inter> set priority = {}"
  shows "c = hd (normalized_types ts)"
proof -
  have "find (\<lambda>p. p \<in> set (normalized_types ts)) priority = None"
    using assms(2) by (auto simp: find_None_iff)
  moreover have "enum_candidate (normalized_types ts) node = None"
    using assms(2) enum_candidate_member[of "normalized_types ts" node] by (cases "enum_candidate (normalized_types ts) node") auto
  moreover have "''object'' \<notin> set (normalized_types ts)" "''array'' \<notin> set (normalized_types ts)"
    using assms(2) by (auto simp: priority_def)
  ultimately show ?thesis
    using assms(1) by (auto simp: collapseTypeUnion_def Let_def split: list.splits)
qed

text \<open>
  Claim C4, as amended.  Let a schema node have an array as its \<^verbatim>\<open>type\<close>, and let
  the candidates be its string members with \<^verbatim>\<open>"integer"\<close> rewritten to
  \<^verbatim>\<open>"number"\<close>, without \<^verbatim>\<open>"null"\<close>, \<^verbatim>\<open>"undefined"\<close> and \<^verbatim>\<open>""\<close>, each kept at
  its first occurrence.  In the revision that collapses unions the normalized type is one
  string: \<^verbatim>\<open>"string"\<close> when there is no candidate, the candidate when there is one,
  and always one of the candidates when there are any; it is one of object, array,
  string, number, boolean whenever one of these is a candidate, and the first candidate
  when none is.  In \<^verbatim>\<open>src/schemaFixes.ts\<close> the type stays an array, with every
  \<^verbatim>\<open>"integer"\<close> member rewritten to \<^verbatim>\<open>"number"\<close>; only the empty array becomes
  \<^verbatim>\<open>"string"\<close>.
\<close>

theorem union_type_normalized:
  assumes "map_of node ''type'' = Some (JArr ts)"
  shows "(\<exists>t. getprop (normalizeSchema_r2 (JObj node)) ''type'' = Some (JStr t) \<and>
            (normalized_types ts = [] \<longrightarrow> t = ''string'') \<and>
            (\<forall>c. normalized_types ts = [c] \<longrightarrow> t = c) \<and>
            (normalized_types ts \<noteq> [] \<longrightarrow> t \<in> set (normalized_types ts)) \<and>
            (set (normalized_types ts) \<inter> set priority \<noteq> {} \<longrightarrow> t \<in> set priority) \<and>
            (normalized_types ts \<noteq> [] \<and> set (normalized_types ts) \<inter> set priority = {}
               \<longrightarrow> t = hd (normalized_types ts))) \<and>
         getprop (normalizeSchema (JObj node)) ''type'' =
           Some (if ts = [] then JStr ''string'' else JArr (mapped_integer ts))"
proof (intro conjI)
  show "getprop (normalizeSchema (JObj node)) ''type'' =
          Some (if ts = [] then JStr ''string'' else JArr (mapped_integer ts))"
    unfolding normalizeSchema_def deepClone_def visit_type
    using assms by (simp add: fix_type_def map_of_set_prop mapped_integer_def)
next
  show "\<exists>t. getprop (normalizeSchema_r2 (JObj node)) ''type'' = Some (JStr t) \<and>
            (normalized_types ts = [] \<longrightarrow> t = ''string'') \<and>
            (\<forall>c. normalized_types ts = [c] \<longrightarrow> t = c) \<and>
            (normalized_types ts \<noteq> [] \<longrightarrow> t \<in> set (normalized_types ts)) \<and>
            (set (normalized_types ts) \<inter> set priority \<noteq> {} \<longrightarrow> t \<in> set priority) \<and>
            (normalized_types ts \<noteq> [] \<and> set (normalized_types ts) \<inter> set priority = {}
               \<longrightarrow> t = hd (normalized_types ts))"
  proof (cases "collapseTypeUnion ts node")
    case None
    then have nz: "normalized_types ts = []" by (simp add: collapseTypeUnion_None)
    have "getprop (normalizeSchema_r2 (JObj node)) ''type'' = Some (JStr ''string'')"
      unfolding normalizeSchema_r2_def deepClone_def visit_r2_type
      using assms None by (simp add: fix_type_r2_def map_of_set_prop)
    then show ?thesis using nz by simp
  next
    case (Some c)
    then have c: "c \<noteq> []" by (auto dest: collapseTypeUnion_settled)
    have nz: "normalized_types ts \<noteq> []"
      using Some collapseTypeUnion_None[of ts node] by auto
    have "getprop (normalizeSchema_r2 (JObj node)) ''type'' = Some (JStr c)"
      unfolding normalizeSchema_r2_def deepClone_def visit_r2_type
      using assms Some c by (simp add: fix_type_r2_def map_of_set_prop)
    moreover have "\<forall>c'. normalized_types ts = [c'] \<longrightarrow> c = c'"
      using Some by (auto dest: collapseTypeUnion_single[where node = node])
    moreover have "c \<in> set (normalized_types ts)"
      using Some by (rule collapseTypeUnion_member)
    moreover have "set (normalized_types ts) \<inter> set priority \<noteq> {} \<longrightarrow> c \<in> set priority"
      using Some by (auto dest: collapseTypeUnion_priority)
    moreover have "set (normalized_types ts) \<inter> set priority = {} \<longrightarrow> c = hd (normalized_types ts)"
      using Some by (auto dest: collapseTypeUnion_first)
    ultimately show ?thesis using nz by blast
  qed
qed

text \<open>The example of the specification, in both revisions.\<close>

theorem union_type_normalized_witness:
  "getprop (normalizeSchema_r2 (JObj [(''type'', JArr [JStr ''integer'', JStr ''null''])])) ''type''
     = Some (JStr ''number'') \<and>
   getprop (normalizeSchema (JObj [(''type'', JArr [JStr ''integer'', JStr ''null''])])) ''type''
     = Some (JArr [JStr ''number'', JStr ''null''])"
proof -
  have h: "map_of [(''type'', JArr [JStr ''integer'', JStr ''null''])] ''type''
             = Some (JArr [JStr ''integer'', JStr ''null''])"
    by simp
  have nz: "normalized_types [JStr ''integer'', JStr ''null''] = [''number'']"
    by (simp add: normalized_types_def integer_to_number_def)
  show ?thesis
    using union_type_normalized [OF h] by (auto simp: nz mapped_integer_def)
qed

text \<open>
  The claim as stated fails: a union of two names outside the five collapses to the
  first of them, and in \<^verbatim>\<open>src/schemaFixes.ts\<close> the union of the example stays a list.
\<close>

theorem union_type_counterexample:
  "getprop (normalizeSchema_r2 (JObj [(''type'', JArr [JStr ''foo'', JStr ''bar''])])) ''type''
     = Some (JStr ''foo'') \<and>
   ''foo'' \<notin> {''object'', ''array'', ''string'', ''number'', ''boolean''} \<and>
   getprop (normalizeSchema (JObj [(''type'', JArr [JStr ''integer'', JStr ''null''])])) ''type''
     = Some (JArr [JStr ''number'', JStr ''null''])"
  by (simp add: normalizeSchema_r2_def normalizeSchema_def deepClone_def fix_type_r2_def
      fix_type_def collapseTypeUnion_def normalized_types_def integer_to_number_def
      has_object_properties_def has_items_def enum_candidate_def enum_first_def priority_def
      mapped_integer_def recurse_r2_map recurse_map map_entries_def descend_r2_def descend_def
      fix_required_def set_prop_def)

section \<open>Catalogue normalizer: \<^verbatim>\<open>normalizeToolsListResult\<close>\<close>

text \<open>
  The function is the same in both revisions of the file; they differ in the
  \<^verbatim>\<open>normalizeSchema\<close> it calls, which is a parameter \<open>ns\<close> below.

  \<^verbatim>\<open>normalizeSchema\<close> works on its own copy, so a schema is a value.  The tool objects
  are different: the function assigns to their flds and deletes one, and the caller
  holds the same objects.  The steps on the flds of one tool object:
\<close>

text \<open>\<^verbatim>\<open>if (tool.A && !tool.B) tool.B = tool.A\<close>\<close>

definition alias_field :: "string \<Rightarrow> string \<Rightarrow> (string \<times> json) list \<Rightarrow> (string \<times> json) list" where
  "alias_field a b tool =
     (case map_of tool a of
        Some v \<Rightarrow> if truthy v \<and> \<not> truthy_opt (map_of tool b) then set_prop b v tool else tool
      | None \<Rightarrow> tool)"

text \<open>\<^verbatim>\<open>if (tool.parameters && !tool.inputSchema && !tool.input_schema) { tool.inputSchema =
  normalizeSchema(tool.parameters); delete tool.parameters }\<close>\<close>

definition legacy_parameters :: "(json \<Rightarrow> json) \<Rightarrow> (string \<times> json) list \<Rightarrow> (string \<times> json) list" where
  "legacy_parameters ns tool =
     (case map_of tool ''parameters'' of
        Some p \<Rightarrow>
          if truthy p \<and> \<not> truthy_opt (map_of tool ''inputSchema'')
               \<and> \<not> truthy_opt (map_of tool ''input_schema'')
          then delete_prop ''parameters'' (set_prop ''inputSchema'' (ns p) tool)
          else tool
      | None \<Rightarrow> tool)"

text \<open>\<^verbatim>\<open>if (tool.K) tool.K = normalizeSchema(tool.K)\<close>\<close>

definition normalize_field :: "(json \<Rightarrow> json) \<Rightarrow> string \<Rightarrow> (string \<times> json) list \<Rightarrow> (string \<times> json) list" where
  "normalize_field ns k tool =
     (case map_of tool k of
        Some v \<Rightarrow> if truthy v then set_prop k (ns v) tool else tool
      | None \<Rightarrow> tool)"

text \<open>
  The body of the loop for one element of \<^verbatim>\<open>result.tools\<close>.  An element that is falsy
  or not an object is skipped; an array has none of the flds read and stays as it is.
\<close>

definition normalize_tool :: "(json \<Rightarrow> json) \<Rightarrow> json \<Rightarrow> json" where
  "normalize_tool ns tool =
     (case tool of
        JObj flds \<Rightarrow>
          JObj (normalize_field ns ''outputSchema''
                 (normalize_field ns ''inputSchema''
                   (legacy_parameters ns
                     (alias_field ''output_schema'' ''outputSchema''
                       (alias_field ''input_schema'' ''inputSchema'' flds)))))
      | _ \<Rightarrow> tool)"

text \<open>
  The objects of the catalogue live in a store, addressed by number; \<^verbatim>\<open>result.tools\<close>
  is the list of the addresses of its elements (\<open>None\<close> when \<^verbatim>\<open>result\<close> is not an
  object or has no array \<^verbatim>\<open>tools\<close>).  The function returns \<^verbatim>\<open>result\<close> itself; its
  effect is the new store.
\<close>

type_synonym store = "nat \<Rightarrow> json"

definition normalizeToolsListResult_with ::
    "(json \<Rightarrow> json) \<Rightarrow> nat list option \<Rightarrow> store \<Rightarrow> store" where
  "normalizeToolsListResult_with ns tools st =
     (case tools of
        None \<Rightarrow> st
      | Some refs \<Rightarrow> foldl (\<lambda>s r. s(r := normalize_tool ns (s r))) st refs)"

text \<open>\<^verbatim>\<open>src/schemaFixes.ts\<close> lines 10 to 40, and the same lines of the later revision.\<close>

definition normalizeToolsListResult :: "nat list option \<Rightarrow> store \<Rightarrow> store" where
  "normalizeToolsListResult = normalizeToolsListResult_with normalizeSchema"

definition normalizeToolsListResult_r2 :: "nat list option \<Rightarrow> store \<Rightarrow> store" where
  "normalizeToolsListResult_r2 = normalizeToolsListResult_with normalizeSchema_r2"

subsection \<open>What the pass can change\<close>

definition schema_fields :: "string set" where
  "schema_fields = {''inputSchema'', ''outputSchema'', ''parameters''}"

lemma alias_field_other: "k \<noteq> b \<Longrightarrow> map_of (alias_field a b tool) k = map_of tool k"
  by (simp add: alias_field_def map_of_set_prop split: option.splits)

lemma legacy_parameters_other:
  "k \<notin> schema_fields \<Longrightarrow> map_of (legacy_parameters ns tool) k = map_of tool k"
  by (simp add: legacy_parameters_def map_of_set_prop map_of_delete_prop schema_fields_def
      split: option.splits)

lemma normalize_field_other: "k \<noteq> f \<Longrightarrow> map_of (normalize_field ns f tool) k = map_of tool k"
  by (simp add: normalize_field_def map_of_set_prop split: option.splits)

lemma normalize_tool_other:
  assumes "k \<notin> schema_fields"
  shows "getprop (normalize_tool ns tool) k = getprop tool k"
proof (cases tool)
  case (JObj flds)
  have "k \<noteq> ''inputSchema''" "k \<noteq> ''outputSchema''"
    using assms by (auto simp: schema_fields_def)
  then show ?thesis
    using assms JObj
    by (simp add: normalize_tool_def normalize_field_other legacy_parameters_other alias_field_other)
qed (simp_all add: normalize_tool_def)

lemma normalize_tool_non_object: "(\<And>flds. tool \<noteq> JObj flds) \<Longrightarrow> normalize_tool ns tool = tool"
  by (cases tool) (auto simp: normalize_tool_def)

lemma normalize_tools_frame:
  "(r \<notin> set refs \<longrightarrow> foldl (\<lambda>s r. s(r := normalize_tool ns (s r))) st refs r = st r) \<and>
   (k \<notin> schema_fields \<longrightarrow>
      getprop (foldl (\<lambda>s r. s(r := normalize_tool ns (s r))) st refs r) k = getprop (st r) k)"
proof (induction refs arbitrary: st)
  case Nil
  show ?case by simp
next
  case (Cons a refs)
  show ?case
    using Cons.IH[of "st(a := normalize_tool ns (st a))"]
    by (auto simp: normalize_tool_other)
qed

lemma normalizeToolsListResult_with_frame:
  "(r \<notin> (case tools of None \<Rightarrow> {} | Some refs \<Rightarrow> set refs) \<longrightarrow>
      normalizeToolsListResult_with ns tools st r = st r) \<and>
   (k \<notin> schema_fields \<longrightarrow>
      getprop (normalizeToolsListResult_with ns tools st r) k = getprop (st r) k)"
  using normalize_tools_frame[of r _ ns st k]
  by (cases tools) (simp_all add: normalizeToolsListResult_with_def)

text \<open>
  Claim C8, as amended.  \<^verbatim>\<open>normalizeSchema\<close> rewrites a copy of each schema, but the
  pass stores the copies back into the tool objects it was given.  Of the objects in the
  store, only those listed in the payload can change, and in them only the flds
  \<^verbatim>\<open>inputSchema\<close>, \<^verbatim>\<open>outputSchema\<close> and \<^verbatim>\<open>parameters\<close>; every other field of every
  object is what it was.  This holds with either revision of \<^verbatim>\<open>normalizeSchema\<close>.
\<close>

theorem normalizeToolsListResult_frame:
  "(r \<notin> (case tools of None \<Rightarrow> {} | Some refs \<Rightarrow> set refs) \<longrightarrow>
      normalizeToolsListResult tools st r = st r \<and> normalizeToolsListResult_r2 tools st r = st r) \<and>
   (k \<notin> schema_fields \<longrightarrow>
      getprop (normalizeToolsListResult tools st r) k = getprop (st r) k \<and>
      getprop (normalizeToolsListResult_r2 tools st r) k = getprop (st r) k)"
  using normalizeToolsListResult_with_frame[of r tools normalizeSchema st k]
    normalizeToolsListResult_with_frame[of r tools normalizeSchema_r2 st k]
  by (simp add: normalizeToolsListResult_def normalizeToolsListResult_r2_def)

text \<open>A store with one tool at address 0 and another object at address 1.\<close>

definition example_store :: store where
  "example_store =
     (\<lambda>r. if r = 0 then JObj [(''name'', JStr ''t''),
                               (''inputSchema'', JObj [(''type'', JStr ''integer'')])]
          else JObj [(''name'', JStr ''other'')])"

theorem normalizeToolsListResult_frame_witness:
  "normalizeToolsListResult (Some [0]) example_store 1 = JObj [(''name'', JStr ''other'')] \<and>
   normalizeToolsListResult_r2 (Some [0]) example_store 1 = JObj [(''name'', JStr ''other'')] \<and>
   getprop (normalizeToolsListResult (Some [0]) example_store 0) ''name'' = Some (JStr ''t'') \<and>
   getprop (normalizeToolsListResult_r2 (Some [0]) example_store 0) ''name'' = Some (JStr ''t'')"
  using normalizeToolsListResult_frame [of 1 "Some [0]" example_store "''name''"]
    normalizeToolsListResult_frame [of 0 "Some [0]" example_store "''name''"]
  by (simp add: example_store_def schema_fields_def)

text \<open>
  The claim as stated fails: the tool object the caller collected is not what it was
  before the pass.  Its \<^verbatim>\<open>inputSchema\<close> now holds the normalized copy.
\<close>

theorem normalizeToolsListResult_counterexample:
  "normalizeToolsListResult (Some [0]) example_store 0 =
     JObj [(''name'', JStr ''t''), (''inputSchema'', JObj [(''type'', JStr ''number'')])] \<and>
   normalizeToolsListResult_r2 (Some [0]) example_store 0 =
     JObj [(''name'', JStr ''t''), (''inputSchema'', JObj [(''type'', JStr ''number'')])] \<and>
   example_store 0 =
     JObj [(''name'', JStr ''t''), (''inputSchema'', JObj [(''type'', JStr ''integer'')])]"
  by (simp add: normalizeToolsListResult_def normalizeToolsListResult_r2_def
      normalizeToolsListResult_with_def example_store_def normalize_tool_def alias_field_def
      legacy_parameters_def normalize_field_def normalizeSchema_def normalizeSchema_r2_def
      deepClone_def fix_type_def fix_type_r2_def recurse_map recurse_r2_map map_entries_def
      descend_def descend_r2_def fix_required_def set_prop_def)

section \<open>The aggregator (index.ts)\<close>

subsection \<open>Messages on the wire\<close>

text \<open>
  \<^verbatim>\<open>encodeFrame(msg)\<close> is \<^verbatim>\<open>JSON.stringify(msg)\<close> and a newline.  A frame is kept as
  the JSON value it carries.  \<^verbatim>\<open>JSON.stringify\<close> leaves out a property whose value is
  \<^verbatim>\<open>undefined\<close>, so an object literal is built from optional values.
\<close>

fun literal :: "(string \<times> json option) list \<Rightarrow> (string \<times> json) list" where
  "literal [] = []"
| "literal ((k, None) # fs) = literal fs"
| "literal ((k, Some v) # fs) = (k, v) # literal fs"

text \<open>\<^verbatim>\<open>String(v)\<close>.\<close>

definition show_int :: "int \<Rightarrow> string" where
  "show_int i = (if i < 0 then CHR ''-'' # show_nat (nat (- i)) else show_nat (nat i))"

fun join_comma :: "string list \<Rightarrow> string" where
  "join_comma [] = []"
| "join_comma [s] = s"
| "join_comma (s # ss) = s @ CHR '','' # join_comma ss"

fun js_String :: "json \<Rightarrow> string" where
  "js_String JNull = ''null''"
| "js_String (JBool b) = (if b then ''true'' else ''false'')"
| "js_String (JNum n) = show_int n"
| "js_String (JStr s) = s"
| "js_String (JArr xs) = join_comma (map (\<lambda>x. if x = JNull then [] else js_String x) xs)"
| "js_String (JObj kvs) = ''[object Object]''"

fun js_String_opt :: "json option \<Rightarrow> string" where
  "js_String_opt None = ''undefined''"
| "js_String_opt (Some v) = js_String v"

text \<open>\<^verbatim>\<open>v?.a?.b\<close>\<close>

definition getprop2 :: "json \<Rightarrow> string \<Rightarrow> string \<Rightarrow> json option" where
  "getprop2 v a b = (case getprop v a of Some w \<Rightarrow> getprop w b | None \<Rightarrow> None)"

subsection \<open>Child clients and the aggregator state\<close>

text \<open>
  A \<^verbatim>\<open>ChildClient\<close> object: its identity, the \<^verbatim>\<open>name\<close> of its specification and the
  \<^verbatim>\<open>spawnfile\<close> of its process.  Its request counter and its table of pending requests
  change over time and are kept in the state, per child.
\<close>

record ChildClient =
  child_id :: nat
  child_name :: "json option"
  child_spawnfile :: string

text \<open>
  The module's variables, and the two output channels: what was written to the standard
  input of each child (with the child's identity) and to the standard output of the
  wrapper, in order of writing.  The keys of the two routing tables are request ids as
  they arrive, \<^verbatim>\<open>undefined\<close> included.  \<^verbatim>\<open>parentIdToForward\<close> is the table the
  specification calls \<open>parentIdToChild\<close>.
\<close>

record agg =
  children :: "ChildClient list"
  toolToChild :: "string \<rightharpoonup> ChildClient \<times> string"
  parentIdToForward :: "json option \<rightharpoonup> ChildClient"
  parentIdToCtx :: "json option \<rightharpoonup> string \<times> json option"
  idSeq :: "nat \<Rightarrow> nat"
  pending :: "nat \<Rightarrow> json \<rightharpoonup> string"
  child_stdin :: "(nat \<times> json) list"
  parent_stdout :: "json list"

text \<open>\<^verbatim>\<open>ChildClient.request(method, params, id)\<close>: \<^verbatim>\<open>useId = id ?? this.idSeq++\<close>, the
  request is registered as pending and written to the child.\<close>

definition request :: "ChildClient \<Rightarrow> string \<Rightarrow> json option \<Rightarrow> json option \<Rightarrow> agg \<Rightarrow> agg" where
  "request ch method params rid st =
     (let fresh = nullish rid;
          useId = (if fresh then JNum (int (idSeq st (child_id ch))) else nullish_or rid JNull);
          msg = JObj (literal [(''jsonrpc'', Some (JStr ''2.0'')), (''id'', Some useId),
                               (''method'', Some (JStr method)), (''params'', params)])
      in st\<lparr>idSeq := (if fresh then (idSeq st)(child_id ch := idSeq st (child_id ch) + 1)
                       else idSeq st),
            pending := (pending st)(child_id ch := (pending st (child_id ch))(useId \<mapsto> method)),
            child_stdin := child_stdin st @ [(child_id ch, msg)]\<rparr>)"

text \<open>\<^verbatim>\<open>ChildClient.notify(method, params)\<close>; the caller passes \<^verbatim>\<open>msg.method\<close> as it
  is.\<close>

definition notify :: "ChildClient \<Rightarrow> json option \<Rightarrow> json option \<Rightarrow> agg \<Rightarrow> agg" where
  "notify ch method params st =
     st\<lparr>child_stdin := child_stdin st @
          [(child_id ch, JObj (literal [(''jsonrpc'', Some (JStr ''2.0'')), (''method'', method),
                                        (''params'', params)]))]\<rparr>"

text \<open>\<^verbatim>\<open>process.stdout.write(encodeFrame(msg))\<close>\<close>

definition reply :: "json \<Rightarrow> agg \<Rightarrow> agg" where
  "reply msg st = st\<lparr>parent_stdout := parent_stdout st @ [msg]\<rparr>"

subsection \<open>\<^verbatim>\<open>normalizeError\<close>\<close>

text \<open>The context argument \<^verbatim>\<open>{ method, toolName, serverName }\<close>.\<close>

record error_ctx =
  ctx_method :: "string option"
  ctx_toolName :: "string option"
  ctx_serverName :: "json option"

text \<open>\<^verbatim>\<open>raw?.error ? raw.error : raw\<close>\<close>

definition error_of :: "json option \<Rightarrow> json option" where
  "error_of raw =
     (case raw of
        Some r \<Rightarrow> (case getprop r ''error'' of
                     Some e \<Rightarrow> if truthy e then Some e else raw
                   | None \<Rightarrow> raw)
      | None \<Rightarrow> raw)"

fun getprop_opt :: "json option \<Rightarrow> string \<Rightarrow> json option" where
  "getprop_opt None k = None"
| "getprop_opt (Some v) k = getprop v k"

text \<open>The suffix \<^verbatim>\<open>ctx.toolName ? ` for tool '${ctx.toolName}'` : ""\<close>, with its lead-in.\<close>

definition tool_suffix :: "string \<Rightarrow> error_ctx \<Rightarrow> string" where
  "tool_suffix lead ctx =
     (case ctx_toolName ctx of
        Some t \<Rightarrow> if t \<noteq> [] then lead @ '' '' @ [CHR 0x27] @ t @ [CHR 0x27] else []
      | None \<Rightarrow> [])"

text \<open>The fields \<^verbatim>\<open>code\<close>, \<^verbatim>\<open>message\<close>, \<^verbatim>\<open>data.kind\<close> and \<^verbatim>\<open>data.retryable\<close> while the
  function runs.\<close>

record envelope =
  env_code :: int
  env_message :: string
  env_kind :: string
  env_retryable :: bool

text \<open>The block "JSON-RPC standard errors".\<close>

definition standard_errors :: "json option \<Rightarrow> error_ctx \<Rightarrow> envelope \<Rightarrow> envelope" where
  "standard_errors original ctx e =
     (case getprop_opt original ''code'' of
        Some (JNum c) \<Rightarrow>
          if c = - 32601 then
            e\<lparr>env_kind := ''server_error'', env_retryable := False,
              env_message := ''Method not found'' @ tool_suffix '' for tool'' ctx\<rparr>
          else if c = - 32602 then
            e\<lparr>env_kind := ''server_error'', env_retryable := False,
              env_message := ''Invalid params'' @ tool_suffix '' for tool'' ctx\<rparr>
          else if c = - 32603 then
            e\<lparr>env_kind := ''server_error'', env_retryable := True,
              env_message := ''Internal error'' @ tool_suffix '' while calling'' ctx\<rparr>
          else if c \<le> - 32000 \<and> c \<ge> - 32099 then
            e\<lparr>env_kind := ''server_error'',
              env_retryable := truthy_opt (getprop_opt (getprop_opt original ''data'') ''retryable'')\<rparr>
          else e
      | _ \<Rightarrow> e)"

text \<open>The block "Tool-level error convention".\<close>

definition tool_errors :: "json option \<Rightarrow> envelope \<Rightarrow> envelope" where
  "tool_errors original e =
     (case getprop_opt original ''data'' of
        Some od \<Rightarrow>
          if truthy od \<and> typeof_object od \<and> getprop od ''kind'' = Some (JStr ''tool_error'') then
            (let e' = e\<lparr>env_kind := ''tool_error'',
                         env_retryable := truthy_opt (getprop od ''retryable'')\<rparr>
             in if truthy_opt (getprop od ''message'') \<and> env_message e' = []
                then e'\<lparr>env_message := js_String_opt (getprop od ''message'')\<rparr>
                else e')
          else e
      | None \<Rightarrow> e)"

text \<open>The returned object \<^verbatim>\<open>{ code, message, data }\<close>; \<^verbatim>\<open>data\<close> has its keys in the
  order of their first assignment.\<close>

definition envelope_json :: "json option \<Rightarrow> error_ctx \<Rightarrow> envelope \<Rightarrow> json" where
  "envelope_json original ctx e =
     JObj [(''code'', JNum (env_code e)), (''message'', JStr (env_message e)),
           (''data'',
             JObj (literal
               [(''kind'', Some (JStr (env_kind e))), (''retryable'', Some (JBool (env_retryable e))),
                (''original'', original),
                (''toolName'', (case ctx_toolName ctx of
                                  Some t \<Rightarrow> if t \<noteq> [] then Some (JStr t) else None
                                | None \<Rightarrow> None)),
                (''serverName'', (case ctx_serverName ctx of
                                    Some s \<Rightarrow> if truthy s then Some s else None
                                  | None \<Rightarrow> None))]))]"

text \<open>
  \<^verbatim>\<open>normalizeError(raw, ctx)\<close>, lines 272 to 331; \<open>passthrough\<close> is the constant
  \<^verbatim>\<open>ERROR_PASSTHROUGH\<close> read from the environment.  The result is \<^verbatim>\<open>undefined\<close> only
  in passthrough, for an \<^verbatim>\<open>undefined\<close> argument.
\<close>

definition normalizeError :: "bool \<Rightarrow> json option \<Rightarrow> error_ctx \<Rightarrow> json option" where
  "normalizeError passthrough raw ctx =
     (if passthrough then error_of raw
      else
        (let original = error_of raw;
             e0 = \<lparr>env_code = (case getprop_opt original ''code'' of Some (JNum c) \<Rightarrow> c | _ \<Rightarrow> - 32000),
                   env_message =
                     (case getprop_opt original ''message'' of
                        Some m \<Rightarrow> if truthy m then js_String m else ''Server error''
                      | None \<Rightarrow> ''Server error''),
                   env_kind = ''server_error'', env_retryable = False\<rparr>
         in if getprop_opt original ''code'' = Some (JStr ''ENOENT'') then
              Some (envelope_json original ctx
                (e0\<lparr>env_code := - 32001,
                     env_message := ''Spawn error (ENOENT): command not found. Check PATH or use ''
                        @ [CHR 0x27] @ ''npx tsx <path-to-index.ts>'' @ [CHR 0x27] @ ''.'',
                     env_kind := ''spawn_error'', env_retryable := False\<rparr>))
            else
              (let e2 = tool_errors original (standard_errors original ctx e0);
                   e3 = (if env_message e2 = [] \<or> env_message e2 = ''[object Object]''
                         then e2\<lparr>env_message := ''Tool/server error''\<rparr> else e2)
               in Some (envelope_json original ctx e3))))"

subsection \<open>\<^verbatim>\<open>handleToolsCall\<close>\<close>

text \<open>\<^verbatim>\<open>{ ...(parentMsg.params || {}), name: orig }\<close>.  When the entry exists,
  \<^verbatim>\<open>params.name\<close> is a string, so \<^verbatim>\<open>params\<close> is an object.\<close>

definition spread_with_name :: "json option \<Rightarrow> string \<Rightarrow> json" where
  "spread_with_name params orig =
     JObj (set_prop ''name'' (JStr orig)
            (case params of Some (JObj ps) \<Rightarrow> ps | Some (JArr xs) \<Rightarrow> entries (JArr xs) | _ \<Rightarrow> []))"

text \<open>
  Lines 455 to 476: everything the function does before it returns.  The handler it
  attaches with \<^verbatim>\<open>catch\<close> runs later, if the child answers with an error.
\<close>

definition handleToolsCall :: "bool \<Rightarrow> json \<Rightarrow> agg \<Rightarrow> agg" where
  "handleToolsCall passthrough parentMsg st =
     (let name = getprop2 parentMsg ''params'' ''name'';
          parentId = getprop parentMsg ''id'';
          entry = (case name of Some (JStr n) \<Rightarrow> toolToChild st n | _ \<Rightarrow> None)
      in case entry of
           None \<Rightarrow>
             (let error = normalizeError passthrough
                    (Some (JObj [(''error'',
                       JObj [(''code'', JNum (- 32601)),
                             (''message'', JStr (''Tool not found: '' @ js_String_opt name))])]))
                    \<lparr>ctx_method = Some ''tools/call'', ctx_toolName = Some (js_String_opt name),
                      ctx_serverName = None\<rparr>
              in reply (JObj (literal [(''jsonrpc'', Some (JStr ''2.0'')), (''id'', parentId),
                                        (''error'', error)])) st)
         | Some (child, orig) \<Rightarrow>
             (let st1 = st\<lparr>parentIdToForward := (parentIdToForward st)(parentId \<mapsto> child)\<rparr>;
                  st2 = st1\<lparr>parentIdToCtx := (parentIdToCtx st1)
                              (parentId \<mapsto> (''tools/call'', getprop parentMsg ''params''))\<rparr>;
                  fwdParams = spread_with_name (getprop parentMsg ''params'') orig
              in request child ''tools/call'' (Some fwdParams) parentId st2))"

subsection \<open>The dispatch of a parent message\<close>

text \<open>\<^verbatim>\<open>minimalInitializeResult(protocolVersion)\<close>\<close>

definition minimalInitializeResult :: "json \<Rightarrow> json" where
  "minimalInitializeResult protocolVersion =
     JObj [(''serverInfo'', JObj [(''name'', JStr ''mcp''), (''version'', JStr ''0.0.0'')]),
           (''protocolVersion'', protocolVersion),
           (''capabilities'', JObj [(''tools'', JObj [(''listChanged'', JBool False)])])]"

text \<open>\<^verbatim>\<open>msg?.params?.protocolVersion || "2024-06-13"\<close>\<close>

definition pver :: "json \<Rightarrow> json" where
  "pver msg =
     (case getprop2 msg ''params'' ''protocolVersion'' of
        Some v \<Rightarrow> if truthy v then v else JStr ''2024-06-13''
      | None \<Rightarrow> JStr ''2024-06-13'')"

text \<open>
  The \<^verbatim>\<open>initialize\<close> case up to the point where the fan-out waits: no reply to a
  notification, the minimal result when there is no child, otherwise one request to each
  child in list order.
\<close>

definition initialize_start :: "json \<Rightarrow> agg \<Rightarrow> agg" where
  "initialize_start msg st =
     (if nullish (getprop msg ''id'') then st
      else if children st = [] then
        reply (JObj (literal [(''jsonrpc'', Some (JStr ''2.0'')), (''id'', getprop msg ''id''),
                              (''result'', Some (minimalInitializeResult (pver msg)))])) st
      else foldl (\<lambda>s ch. request ch ''initialize'' (getprop msg ''params'') None s) st (children st))"

text \<open>The \<^verbatim>\<open>tools/list\<close> case and \<^verbatim>\<open>handleToolsList\<close> up to its \<^verbatim>\<open>await\<close>.\<close>

definition tools_list_start :: "json \<Rightarrow> agg \<Rightarrow> agg" where
  "tools_list_start msg st =
     (if nullish (getprop msg ''id'') then st
      else foldl (\<lambda>s ch. request ch ''tools/list'' None None s) st (children st))"

text \<open>The \<^verbatim>\<open>default\<close> case, lines 647 to 672.\<close>

definition default_case :: "string \<Rightarrow> json \<Rightarrow> agg \<Rightarrow> agg" where
  "default_case method msg st =
     (let mid = getprop msg ''id'' in
      if \<not> nullish mid \<and> method = ''ping'' then
        reply (JObj (literal [(''jsonrpc'', Some (JStr ''2.0'')), (''id'', mid),
                              (''result'', Some (JObj [(''ok'', JBool True)]))])) st
      else
        (case children st of
           [] \<Rightarrow>
             if \<not> nullish mid then
               reply (JObj (literal [(''jsonrpc'', Some (JStr ''2.0'')), (''id'', mid),
                        (''error'', Some (JObj [(''code'', JNum (- 32601)),
                                  (''message'', JStr (''Method not found: '' @ method))]))])) st
             else st
         | first # others \<Rightarrow>
             (let st1 = (if \<not> nullish mid
                         then st\<lparr>parentIdToForward := (parentIdToForward st)(mid \<mapsto> first)\<rparr>
                         else st)
              in st1\<lparr>child_stdin := child_stdin st1 @ [(child_id first, msg)]\<rparr>)))"

text \<open>
  The callback of the parent's \<^verbatim>\<open>JsonRpcStdio\<close>, lines 526 to 684.  Every case of the
  \<^verbatim>\<open>switch\<close> ends in \<^verbatim>\<open>return\<close>, so the broadcast below it is reached only by a
  message whose \<^verbatim>\<open>method\<close> is not a string.
\<close>

definition onParentMessage :: "bool \<Rightarrow> json \<Rightarrow> agg \<Rightarrow> agg" where
  "onParentMessage passthrough msg st =
     (if truthy msg \<and> getprop msg ''jsonrpc'' = Some (JStr ''2.0'') then
        (case getprop msg ''method'' of
           Some (JStr method) \<Rightarrow>
             (let st1 = (if \<not> nullish (getprop msg ''id'')
                         then st\<lparr>parentIdToCtx := (parentIdToCtx st)
                                  (getprop msg ''id'' \<mapsto> (method, getprop msg ''params''))\<rparr>
                         else st)
              in if method = ''initialize'' then initialize_start msg st1
                 else if method = ''tools/list'' then tools_list_start msg st1
                 else if method = ''tools/call'' then handleToolsCall passthrough msg st1
                 else default_case method msg st1)
         | Some m \<Rightarrow>
             if truthy m \<and> nullish (getprop msg ''id'')
             then foldl (\<lambda>s ch. notify ch (Some m) (getprop msg ''params'') s) st (children st)
             else st
         | None \<Rightarrow> st)
      else st)"

subsection \<open>The key of a child\<close>

text \<open>
  \<^verbatim>\<open>normalizeKey\<close> on ASCII text: lower case, every run of characters outside
  \<^verbatim>\<open>[a-z0-9]\<close> replaced by one underscore, underscores stripped at both ends, runs of
  underscores reduced to one.
\<close>

definition key_char :: "char \<Rightarrow> bool" where
  "key_char c = ((97 \<le> (of_char c :: nat) \<and> (of_char c :: nat) \<le> 122) \<or>
                 (48 \<le> (of_char c :: nat) \<and> (of_char c :: nat) \<le> 57))"

function replace_runs :: "(char \<Rightarrow> bool) \<Rightarrow> string \<Rightarrow> string" where
  "replace_runs P [] = []"
| "replace_runs P (c # cs) =
     (if P c then CHR ''_'' # replace_runs P (dropWhile P cs) else c # replace_runs P cs)"
  by pat_completeness auto
termination
  by (relation "measure (\<lambda>p. length (snd p))") (auto simp: length_dropWhile_le less_Suc_eq_le)

definition strip_underscores :: "string \<Rightarrow> string" where
  "strip_underscores s =
     rev (dropWhile (\<lambda>c. c = CHR ''_'') (rev (dropWhile (\<lambda>c. c = CHR ''_'') s)))"

definition normalizeKey :: "string \<Rightarrow> string" where
  "normalizeKey s =
     replace_runs (\<lambda>c. c = CHR ''_'')
       (strip_underscores (replace_runs (\<lambda>c. \<not> key_char c) (map to_lower s)))"

text \<open>\<^verbatim>\<open>path.basename\<close> of Node on a POSIX path: the text after the last slash, trailing
  slashes apart.\<close>

definition basename :: "string \<Rightarrow> string" where
  "basename p =
     rev (takeWhile (\<lambda>c. c \<noteq> CHR ''/'') (dropWhile (\<lambda>c. c = CHR ''/'') (rev p)))"

text \<open>\<^verbatim>\<open>getChildKey\<close>: \<^verbatim>\<open>child.name || (spawnfile ? path.basename(spawnfile) : "child")\<close>,
  passed through \<^verbatim>\<open>normalizeKey\<close>.\<close>

definition getChildKey :: "ChildClient \<Rightarrow> string" where
  "getChildKey child =
     normalizeKey
       (case child_name child of
          Some n \<Rightarrow>
            if truthy n then js_String n
            else if child_spawnfile child \<noteq> [] then basename (child_spawnfile child) else ''child''
        | None \<Rightarrow>
            if child_spawnfile child \<noteq> [] then basename (child_spawnfile child) else ''child'')"

subsection \<open>\<^verbatim>\<open>handleToolsList\<close> after the fan-out\<close>

text \<open>
  Each child's request settles on its own: with the \<^verbatim>\<open>result\<close> of the child's answer,
  or with an error (the child's, or the timeout's).  The callbacks push onto
  \<^verbatim>\<open>results\<close> and \<^verbatim>\<open>errors\<close> as they run, so both lists are in the order in which
  the requests settled, whatever the order of the children.
\<close>

datatype outcome = Resolved "json option" | Rejected "json option"

fun results_of :: "(ChildClient \<times> outcome) list \<Rightarrow> (ChildClient \<times> json option) list" where
  "results_of [] = []"
| "results_of ((ch, Resolved r) # xs) = (ch, r) # results_of xs"
| "results_of ((ch, Rejected e) # xs) = results_of xs"

fun errors_of :: "(ChildClient \<times> outcome) list \<Rightarrow> (ChildClient \<times> json option) list" where
  "errors_of [] = []"
| "errors_of ((ch, Resolved r) # xs) = errors_of xs"
| "errors_of ((ch, Rejected e) # xs) = (ch, e) # errors_of xs"

text \<open>\<^verbatim>\<open>Array.isArray(result?.tools) ? result.tools : []\<close>\<close>

definition tools_of :: "json option \<Rightarrow> json list" where
  "tools_of result = (case getprop_opt result ''tools'' of Some (JArr ts) \<Rightarrow> ts | _ \<Rightarrow> [])"

text \<open>
  The body of the inner loop, lines 412 to 428, on the pair of \<^verbatim>\<open>toolToChild\<close> and
  \<^verbatim>\<open>merged\<close>.  \<^verbatim>\<open>orig\<close> is the name when it is a string, and the test \<^verbatim>\<open>if (orig)\<close>
  fails on the empty string as it does on \<^verbatim>\<open>undefined\<close>.
\<close>

definition merge_tool ::
    "ChildClient \<Rightarrow> (string \<rightharpoonup> ChildClient \<times> string) \<times> json list \<Rightarrow> json
       \<Rightarrow> (string \<rightharpoonup> ChildClient \<times> string) \<times> json list" where
  "merge_tool child acc t =
     (if truthy t \<and> typeof_object t then
        (case (t, getprop t ''name'') of
           (JObj flds, Some (JStr orig)) \<Rightarrow>
             if orig \<noteq> [] then
               (let newName = getChildKey child @ ''__'' @ orig in
                if fst acc newName = None
                then ((fst acc)(newName \<mapsto> (child, orig)),
                      snd acc @ [JObj (set_prop ''name'' (JStr newName) flds)])
                else acc)
             else (fst acc, snd acc @ [t])
         | _ \<Rightarrow> (fst acc, snd acc @ [t]))
      else acc)"

text \<open>The two loops, lines 407 to 430, from the cleared table and the empty list.\<close>

definition merge_results ::
    "(ChildClient \<times> json option) list \<Rightarrow> (string \<rightharpoonup> ChildClient \<times> string) \<times> json list" where
  "merge_results results =
     foldl (\<lambda>acc cr. foldl (merge_tool (fst cr)) acc (tools_of (snd cr))) (Map.empty, []) results"

text \<open>
  Lines 407 to 434, run when all requests have settled.  The objects in \<^verbatim>\<open>merged\<close>
  are pairwise different objects (each comes from its own place in a parsed answer), so
  the in-place pass of \<^verbatim>\<open>normalizeToolsListResult\<close> over them is the map of
  \<open>normalize_tool\<close> over their values.  \<open>ns\<close> is the revision of \<^verbatim>\<open>normalizeSchema\<close>.
\<close>

definition emitted_tools :: "(json \<Rightarrow> json) \<Rightarrow> (ChildClient \<times> outcome) list \<Rightarrow> json list" where
  "emitted_tools ns arrived = map (normalize_tool ns) (snd (merge_results (results_of arrived)))"

definition tools_list_done ::
    "(json \<Rightarrow> json) \<Rightarrow> json \<Rightarrow> (ChildClient \<times> outcome) list \<Rightarrow> agg \<Rightarrow> agg" where
  "tools_list_done ns parentId arrived st =
     reply (JObj [(''jsonrpc'', JStr ''2.0''), (''id'', parentId),
                  (''result'', JObj [(''tools'', JArr (emitted_tools ns arrived))])])
       (st\<lparr>toolToChild := fst (merge_results (results_of arrived))\<rparr>)"

subsection \<open>\<^verbatim>\<open>initialize\<close> after the fan-out\<close>

text \<open>
  An assignment \<^verbatim>\<open>o.k = v\<close> as the reply shows it.  On an object it sets the property.
  On an array it adds a property that is not an element, which \<^verbatim>\<open>JSON.stringify\<close>
  leaves out: the array is serialized as before.  On any other value it throws a
  \<^verbatim>\<open>TypeError\<close> (the module is an ES module, hence strict); that is \<open>None\<close>.
\<close>

fun assign :: "json \<Rightarrow> string \<Rightarrow> json \<Rightarrow> json option" where
  "assign (JObj flds) k v = Some (JObj (set_prop k v flds))"
| "assign (JArr xs) k v = Some (JArr xs)"
| "assign other k v = None"

text \<open>
  Lines 592 to 595 on the value of \<^verbatim>\<open>result.capabilities\<close>: an empty object replaces a
  falsy value, and \<^verbatim>\<open>tools\<close> is assigned when it is falsy.
\<close>

definition coerce_capabilities :: "json option \<Rightarrow> json option" where
  "coerce_capabilities caps =
     (let c = (if truthy_opt caps then nullish_or caps JNull else JObj [])
      in if truthy_opt (getprop c ''tools'') then Some c
         else assign c ''tools'' (JObj [(''listChanged'', JBool False)]))"

text \<open>Lines 597 and 598 on the value of \<^verbatim>\<open>result.serverInfo\<close>.\<close>

definition coerce_serverInfo :: "json option \<Rightarrow> json option" where
  "coerce_serverInfo info =
     assign (if truthy_opt info then nullish_or info JNull else JObj []) ''name'' (JStr ''mcp'')"

text \<open>
  Lines 587 to 598: the coercion of the first result, as the reply will carry it, or
  \<open>None\<close> when an assignment throws.  When the result is an array, every assignment adds
  a property to the array object or to an object stored in such a property; none of it
  is serialized.
\<close>

definition coerce_result :: "json option \<Rightarrow> json \<Rightarrow> json option" where
  "coerce_result result protoVer =
     (case (if truthy_opt result \<and> typeof_object (nullish_or result JNull)
            then nullish_or result JNull else JObj []) of
        JObj flds \<Rightarrow>
          (let f1 = (if nullish (map_of flds ''protocolVersion'')
                     then set_prop ''protocolVersion'' protoVer flds else flds)
           in case coerce_capabilities (map_of f1 ''capabilities'') of
                None \<Rightarrow> None
              | Some caps \<Rightarrow>
                  (let f2 = set_prop ''capabilities'' caps f1
                   in case coerce_serverInfo (map_of f2 ''serverInfo'') of
                        None \<Rightarrow> None
                      | Some info \<Rightarrow> Some (JObj (set_prop ''serverInfo'' info f2))))
      | other \<Rightarrow> Some other)"

text \<open>
  How the wait of the \<^verbatim>\<open>initialize\<close> fan-out ends: the timer fires first, or all
  requests have settled first (in the given order).  The flag \<^verbatim>\<open>settled\<close> lets only
  the first of the two write.
\<close>

datatype wait_end = TimedOut | AllSettled "(ChildClient \<times> outcome) list"

text \<open>
  Lines 558 to 634.  A \<^verbatim>\<open>TypeError\<close> thrown by the coercion is caught at line 620 with
  \<^verbatim>\<open>settled\<close> already set, and nothing is written.
\<close>

definition initialize_done :: "bool \<Rightarrow> json \<Rightarrow> wait_end \<Rightarrow> agg \<Rightarrow> agg" where
  "initialize_done passthrough msg w st =
     (case w of
        TimedOut \<Rightarrow>
          reply (JObj (literal [(''jsonrpc'', Some (JStr ''2.0'')), (''id'', getprop msg ''id''),
                                (''result'', Some (minimalInitializeResult (pver msg)))])) st
      | AllSettled arrived \<Rightarrow>
          (case results_of arrived of
             (ch, r) # rest \<Rightarrow>
               (case coerce_result r (pver msg) of
                  Some result \<Rightarrow>
                    reply (JObj (literal [(''jsonrpc'', Some (JStr ''2.0'')),
                                          (''id'', getprop msg ''id''), (''result'', Some result)])) st
                | None \<Rightarrow> st)
           | [] \<Rightarrow>
               (let firstErr =
                      (case errors_of arrived of
                         (ch, e) # rest \<Rightarrow>
                           if nullish e
                           then Some (JObj [(''code'', JNum (- 32000)),
                                            (''message'', JStr ''initialize failed'')])
                           else e
                       | [] \<Rightarrow> Some (JObj [(''code'', JNum (- 32000)),
                                           (''message'', JStr ''initialize failed'')]))
                in reply (JObj (literal [(''jsonrpc'', Some (JStr ''2.0'')),
                                         (''id'', getprop msg ''id''),
                                         (''error'', normalizeError passthrough firstErr
                                            \<lparr>ctx_method = Some ''initialize'', ctx_toolName = None,
                                              ctx_serverName = None\<rparr>)])) st)))"

subsection \<open>Routing of \<^verbatim>\<open>tools/call\<close>\<close>

lemma literal_all_some: "literal (map (\<lambda>e. (fst e, Some (snd e))) kvs) = kvs"
  by (induction kvs) auto

lemma set_prop_present_keys:
  "map_of ps k = Some v \<Longrightarrow> map fst (set_prop k w ps) = map fst ps"
  unfolding set_prop_def by (induction ps) (auto split: if_splits)

text \<open>
  Claim C1.  Let the parent send a \<^verbatim>\<open>tools/call\<close> request with id \<open>i\<close> and parameters
  \<open>ps\<close> whose \<^verbatim>\<open>name\<close> is a published name recorded in \<^verbatim>\<open>toolToChild\<close> with the
  entry \<open>(child, orig)\<close>.  Then the wrapper writes one frame, to that child: a
  \<^verbatim>\<open>tools/call\<close> request with id \<open>i\<close> whose parameters are \<open>ps\<close> with \<^verbatim>\<open>name\<close>
  replaced by \<open>orig\<close>, the same keys in the same order and every other value unchanged.
  Nothing is written to the parent.  The send acts on a state \<open>st2\<close> in which the routing
  entries of \<open>i\<close> are already set to the child and to \<^verbatim>\<open>("tools/call", params)\<close>, and
  they are still set afterwards.
\<close>

theorem tools_call_routed:
  assumes "getprop msg ''jsonrpc'' = Some (JStr ''2.0'')"
    and "getprop msg ''method'' = Some (JStr ''tools/call'')"
    and "getprop msg ''id'' = Some i" and "i \<noteq> JNull"
    and "getprop msg ''params'' = Some (JObj ps)"
    and "map_of ps ''name'' = Some (JStr n)"
    and "toolToChild st n = Some (child, orig)"
  shows "(\<exists>st2. parentIdToForward st2 (Some i) = Some child \<and>
               parentIdToCtx st2 (Some i) = Some (''tools/call'', Some (JObj ps)) \<and>
               child_stdin st2 = child_stdin st \<and>
               onParentMessage passthrough msg st =
                 request child ''tools/call'' (Some (JObj (set_prop ''name'' (JStr orig) ps)))
                   (Some i) st2) \<and>
         child_stdin (onParentMessage passthrough msg st) =
           child_stdin st @
             [(child_id child,
               JObj [(''jsonrpc'', JStr ''2.0''), (''id'', i), (''method'', JStr ''tools/call''),
                     (''params'', JObj (set_prop ''name'' (JStr orig) ps))])] \<and>
         map_of (set_prop ''name'' (JStr orig) ps) ''name'' = Some (JStr orig) \<and>
         (\<forall>k. k \<noteq> ''name'' \<longrightarrow> map_of (set_prop ''name'' (JStr orig) ps) k = map_of ps k) \<and>
         map fst (set_prop ''name'' (JStr orig) ps) = map fst ps \<and>
         parent_stdout (onParentMessage passthrough msg st) = parent_stdout st \<and>
         parentIdToForward (onParentMessage passthrough msg st) (Some i) = Some child \<and>
         parentIdToCtx (onParentMessage passthrough msg st) (Some i)
           = Some (''tools/call'', Some (JObj ps))"
proof -
  obtain kvs where msg: "msg = JObj kvs"
    using assms(1) by (cases msg) simp_all
  have nn: "\<not> nullish (Some i)" using assms(4) by (cases i) simp_all
  have i': "nullish_or (Some i) JNull = i" using assms(4) by (cases i) simp_all
  have name: "getprop2 msg ''params'' ''name'' = Some (JStr n)"
    using assms(5,6) by (simp add: getprop2_def)
  let ?st1 = "st\<lparr>parentIdToCtx := (parentIdToCtx st)(Some i \<mapsto> (''tools/call'', Some (JObj ps)))\<rparr>"
  let ?st2 = "?st1\<lparr>parentIdToForward := (parentIdToForward ?st1)(Some i \<mapsto> child),
                    parentIdToCtx := (parentIdToCtx ?st1)(Some i \<mapsto> (''tools/call'', Some (JObj ps)))\<rparr>"
  let ?fwd = "JObj (set_prop ''name'' (JStr orig) ps)"
  have run: "onParentMessage passthrough msg st = request child ''tools/call'' (Some ?fwd) (Some i) ?st2"
    using assms nn name
    by (simp add: onParentMessage_def msg handleToolsCall_def spread_with_name_def Let_def)
  have sent: "child_stdin (request child ''tools/call'' (Some ?fwd) (Some i) ?st2) =
      child_stdin st @
        [(child_id child,
          JObj [(''jsonrpc'', JStr ''2.0''), (''id'', i), (''method'', JStr ''tools/call''),
                (''params'', ?fwd)])]"
    using nn i' by (simp add: request_def Let_def)
  have keep: "parent_stdout (request child ''tools/call'' (Some ?fwd) (Some i) ?st2) = parent_stdout st"
    "parentIdToForward (request child ''tools/call'' (Some ?fwd) (Some i) ?st2) (Some i) = Some child"
    "parentIdToCtx (request child ''tools/call'' (Some ?fwd) (Some i) ?st2) (Some i)
       = Some (''tools/call'', Some (JObj ps))"
    by (simp_all add: request_def Let_def)
  have "parentIdToForward ?st2 (Some i) = Some child \<and>
        parentIdToCtx ?st2 (Some i) = Some (''tools/call'', Some (JObj ps)) \<and>
        child_stdin ?st2 = child_stdin st"
    by simp
  then have first: "\<exists>st2. parentIdToForward st2 (Some i) = Some child \<and>
               parentIdToCtx st2 (Some i) = Some (''tools/call'', Some (JObj ps)) \<and>
               child_stdin st2 = child_stdin st \<and>
               onParentMessage passthrough msg st =
                 request child ''tools/call'' (Some ?fwd) (Some i) st2"
    using run by blast
  show ?thesis
    using first sent keep set_prop_present_keys[OF assms(6), of "JStr orig"]
    by (simp add: run map_of_set_prop)
qed

text \<open>
  The first scenario of the specification: two children, and a call of
  \<^verbatim>\<open>serena__list_dir\<close> with a path.
\<close>

definition serena :: ChildClient where
  "serena = \<lparr>child_id = 0, child_name = Some (JStr ''serena''), child_spawnfile = ''uvx''\<rparr>"

definition fs_child :: ChildClient where
  "fs_child = \<lparr>child_id = 1, child_name = Some (JStr ''fs''), child_spawnfile = ''npx''\<rparr>"

definition example_agg :: agg where
  "example_agg =
     \<lparr>children = [serena, fs_child],
      toolToChild = [''serena__list_dir'' \<mapsto> (serena, ''list_dir''),
                     ''fs__list_dir'' \<mapsto> (fs_child, ''list_dir'')],
      parentIdToForward = Map.empty, parentIdToCtx = Map.empty,
      idSeq = (\<lambda>c. 1), pending = (\<lambda>c. Map.empty), child_stdin = [], parent_stdout = []\<rparr>"

definition example_call :: "string \<Rightarrow> json" where
  "example_call n =
     JObj [(''jsonrpc'', JStr ''2.0''), (''id'', JNum 7), (''method'', JStr ''tools/call''),
           (''params'', JObj [(''name'', JStr n), (''path'', JStr ''/tmp'')])]"

theorem tools_call_routed_witness:
  "child_stdin (onParentMessage False (example_call ''serena__list_dir'') example_agg) =
     [(0, JObj [(''jsonrpc'', JStr ''2.0''), (''id'', JNum 7), (''method'', JStr ''tools/call''),
                (''params'', JObj [(''name'', JStr ''list_dir''), (''path'', JStr ''/tmp'')])])] \<and>
   parent_stdout (onParentMessage False (example_call ''serena__list_dir'') example_agg) = [] \<and>
   parentIdToForward (onParentMessage False (example_call ''serena__list_dir'') example_agg)
     (Some (JNum 7)) = Some serena"
proof -
  have h1: "getprop (example_call ''serena__list_dir'') ''jsonrpc'' = Some (JStr ''2.0'')"
    and h2: "getprop (example_call ''serena__list_dir'') ''method'' = Some (JStr ''tools/call'')"
    and h3: "getprop (example_call ''serena__list_dir'') ''id'' = Some (JNum 7)"
    and h4: "JNum 7 \<noteq> JNull"
    and h5: "getprop (example_call ''serena__list_dir'') ''params'' =
               Some (JObj [(''name'', JStr ''serena__list_dir''), (''path'', JStr ''/tmp'')])"
    and h6: "map_of [(''name'', JStr ''serena__list_dir''), (''path'', JStr ''/tmp'')] ''name'' =
               Some (JStr ''serena__list_dir'')"
    and h7: "toolToChild example_agg ''serena__list_dir'' = Some (serena, ''list_dir'')"
    by (simp_all add: example_call_def example_agg_def)
  show ?thesis
    using tools_call_routed [OF h1 h2 h3 h4 h5 h6 h7, of False]
    by (simp add: set_prop_def example_agg_def serena_def)
qed

subsection \<open>A call of an unknown tool\<close>

text \<open>
  Claim C2 says that a call of a name without an entry is answered, with passthrough off,
  by an error of code \<^verbatim>\<open>-32601\<close> and message \<^verbatim>\<open>Tool not found: <name>\<close>.  The code
  builds that message and hands it to \<^verbatim>\<open>normalizeError\<close>, whose rule for code
  \<^verbatim>\<open>-32601\<close> replaces it: the parent reads \<^verbatim>\<open>Method not found for tool '<name>'\<close>, and
  the message built by \<^verbatim>\<open>handleToolsCall\<close> survives only in \<^verbatim>\<open>data.original\<close>.
\<close>

theorem tools_call_unknown_reply:
  "parent_stdout (onParentMessage False (example_call ''nope'') example_agg) =
     [JObj [(''jsonrpc'', JStr ''2.0''), (''id'', JNum 7),
            (''error'',
              JObj [(''code'', JNum (- 32601)),
                    (''message'', JStr (''Method not found for tool '' @ [CHR 0x27] @ ''nope'' @ [CHR 0x27])),
                    (''data'',
                      JObj [(''kind'', JStr ''server_error''), (''retryable'', JBool False),
                            (''original'',
                              JObj [(''code'', JNum (- 32601)),
                                    (''message'', JStr ''Tool not found: nope'')]),
                            (''toolName'', JStr ''nope'')])])]]"
  by (simp add: onParentMessage_def example_call_def example_agg_def handleToolsCall_def
      getprop2_def normalizeError_def error_of_def standard_errors_def tool_errors_def
      tool_suffix_def envelope_json_def reply_def Let_def)

text \<open>With passthrough on, the same call is answered with the message as built.\<close>

lemma tools_call_unknown_passthrough:
  "parent_stdout (onParentMessage True (example_call ''nope'') example_agg) =
     [JObj [(''jsonrpc'', JStr ''2.0''), (''id'', JNum 7),
            (''error'', JObj [(''code'', JNum (- 32601)),
                              (''message'', JStr ''Tool not found: nope'')])]]"
  by (simp add: onParentMessage_def example_call_def example_agg_def handleToolsCall_def
      getprop2_def normalizeError_def error_of_def reply_def Let_def)

subsection \<open>Notifications from the parent\<close>

text \<open>A notification as a client sends it after \<^verbatim>\<open>initialize\<close>.\<close>

definition example_notification :: json where
  "example_notification =
     JObj [(''jsonrpc'', JStr ''2.0''), (''method'', JStr ''notifications/initialized'')]"

text \<open>
  Claim C3 says that a notification from the parent is broadcast to every live child.
  The broadcast stands after the \<^verbatim>\<open>switch\<close> on the method, and the \<^verbatim>\<open>default\<close> case
  of the \<^verbatim>\<open>switch\<close> returns before it: a notification such as
  \<^verbatim>\<open>notifications/initialized\<close> is written to the first child only.
\<close>

theorem notification_first_child_only:
  "child_stdin (onParentMessage False example_notification example_agg) =
     [(child_id serena, example_notification)]"
  by (simp add: onParentMessage_def example_notification_def example_agg_def default_case_def
      Let_def)

text \<open>The broadcast is reached by a message whose method is not a string, and by no other.\<close>

lemma broadcast_reached:
  "child_stdin (onParentMessage False (JObj [(''jsonrpc'', JStr ''2.0''), (''method'', JNum 1)])
     example_agg) =
     [(0, JObj [(''jsonrpc'', JStr ''2.0''), (''method'', JNum 1)]),
      (1, JObj [(''jsonrpc'', JStr ''2.0''), (''method'', JNum 1)])]"
  by (simp add: onParentMessage_def example_agg_def notify_def serena_def fs_child_def)

subsection \<open>The merged catalogue\<close>

text \<open>
  The tools offered by the collected results, in the order of the two loops; the tools
  among them that get a published name, with the entry and the renamed tool; and the
  candidates that come first under their published name.
\<close>

definition offered :: "(ChildClient \<times> json option) list \<Rightarrow> (ChildClient \<times> json) list" where
  "offered results = concat (map (\<lambda>cr. map (Pair (fst cr)) (tools_of (snd cr))) results)"

definition candidate :: "ChildClient \<times> json \<Rightarrow> (string \<times> ChildClient \<times> string \<times> json) option" where
  "candidate ct =
     (case (snd ct, getprop (snd ct) ''name'') of
        (JObj flds, Some (JStr orig)) \<Rightarrow>
          if orig \<noteq> [] then
            Some (getChildKey (fst ct) @ ''__'' @ orig,
                  (fst ct, orig,
                   JObj (set_prop ''name'' (JStr (getChildKey (fst ct) @ ''__'' @ orig)) flds)))
          else None
      | _ \<Rightarrow> None)"

definition candidates ::
    "(ChildClient \<times> json option) list \<Rightarrow> (string \<times> ChildClient \<times> string \<times> json) list" where
  "candidates results = List.map_filter candidate (offered results)"

fun first_by_key :: "('k \<times> 'v) list \<Rightarrow> ('k \<times> 'v) list" where
  "first_by_key [] = []"
| "first_by_key (e # es) = e # first_by_key (filter (\<lambda>e'. fst e' \<noteq> fst e) es)"

text \<open>A tool carries a published name when its \<^verbatim>\<open>name\<close> is a non-empty string.\<close>

definition published :: "json \<Rightarrow> bool" where
  "published t = (case getprop t ''name'' of Some (JStr n) \<Rightarrow> n \<noteq> [] | _ \<Rightarrow> False)"

definition published_names :: "json list \<Rightarrow> string list" where
  "published_names ts =
     List.map_filter
       (\<lambda>t. case getprop t ''name'' of Some (JStr n) \<Rightarrow> if n \<noteq> [] then Some n else None | _ \<Rightarrow> None) ts"

text \<open>
  The tools that the inner loop takes without a published name: objects (the test
  \<^verbatim>\<open>t && typeof t === "object"\<close> holds of arrays too) whose \<^verbatim>\<open>name\<close> is not a
  non-empty string.
\<close>

definition unnamed :: "json \<Rightarrow> bool" where
  "unnamed t = (truthy t \<and> typeof_object t \<and> \<not> published t)"

lemma first_by_key_snoc:
  "first_by_key (es @ [e]) =
     (if fst e \<in> fst ` set es then first_by_key es else first_by_key es @ [e])"
proof (induction es rule: first_by_key.induct)
  case 1
  show ?case by simp
next
  case (2 d es)
  have "fst e \<noteq> fst d \<Longrightarrow>
        (fst e \<in> fst ` set (filter (\<lambda>e'. fst e' \<noteq> fst d) es)) = (fst e \<in> fst ` set es)"
    by force
  then show ?case using 2 by simp
qed

lemma first_by_key_keys: "fst ` set (first_by_key es) = fst ` set es"
proof (induction es rule: first_by_key.induct)
  case 1
  show ?case by simp
next
  case (2 d es)
  have "fst ` set es \<subseteq> insert (fst d) (fst ` set (filter (\<lambda>e'. fst e' \<noteq> fst d) es))"
    by (auto simp: image_iff)
  then show ?case using 2 by auto
qed

lemma first_by_key_distinct: "distinct (map fst (first_by_key es))"
proof (induction es rule: first_by_key.induct)
  case 1
  show ?case by simp
next
  case (2 d es)
  have "fst d \<notin> fst ` set (first_by_key (filter (\<lambda>e'. fst e' \<noteq> fst d) es))"
    unfolding first_by_key_keys by auto
  then show ?case using 2 by simp
qed

lemma map_filter_snoc:
  "List.map_filter f (xs @ [x]) = List.map_filter f xs @ (case f x of None \<Rightarrow> [] | Some y \<Rightarrow> [y])"
  by (simp add: List.map_filter_def split: option.splits)

lemma map_of_snoc:
  "map_of (es @ [(k, v)]) k' =
     (case map_of es k' of Some y \<Rightarrow> Some y | None \<Rightarrow> if k' = k then Some v else None)"
  by (induction es) auto

lemma map_of_snoc_new: "k \<notin> fst ` set es \<Longrightarrow> map_of (es @ [(k, v)]) = (map_of es)(k \<mapsto> v)"
proof (rule ext)
  fix k'
  assume "k \<notin> fst ` set es"
  then have "map_of es k = None" by (simp add: map_of_eq_None_iff)
  then show "map_of (es @ [(k, v)]) k' = ((map_of es)(k \<mapsto> v)) k'"
    unfolding map_of_snoc by (auto split: option.splits)
qed

lemma map_of_snoc_old: "k \<in> fst ` set es \<Longrightarrow> map_of (es @ [(k, v)]) = map_of es"
proof (rule ext)
  fix k'
  assume "k \<in> fst ` set es"
  then have "map_of es k \<noteq> None" by (simp add: map_of_eq_None_iff)
  then show "map_of (es @ [(k, v)]) k' = map_of es k'"
    unfolding map_of_snoc by (auto split: option.splits)
qed

lemma candidate_published:
  "candidate ct = Some (n, c, orig, t) \<Longrightarrow> published t \<and> getprop t ''name'' = Some (JStr n) \<and> c = fst ct"
  by (auto simp: candidate_def published_def map_of_set_prop split: json.splits option.splits if_splits)

lemma candidate_none: "candidate (ch, t) = None \<Longrightarrow> \<not> published t"
  by (auto simp: candidate_def published_def split: json.splits option.splits if_splits)

text \<open>The loop body, by cases on the candidate.\<close>

lemma merge_tool_candidate:
  "merge_tool ch acc t =
     (case candidate (ch, t) of
        Some (n, c, orig, t') \<Rightarrow>
          if fst acc n = None then ((fst acc)(n \<mapsto> (c, orig)), snd acc @ [t']) else acc
      | None \<Rightarrow> if truthy t \<and> typeof_object t then (fst acc, snd acc @ [t]) else acc)"
  by (cases t) (auto simp: merge_tool_def candidate_def Let_def split: option.splits json.splits)

lemma merge_results_flat:
  "foldl (\<lambda>acc cr. foldl (merge_tool (fst cr)) acc (tools_of (snd cr))) acc results =
   foldl (\<lambda>acc ct. merge_tool (fst ct) acc (snd ct)) acc (offered results)"
proof (induction results arbitrary: acc)
  case Nil
  show ?case by (simp add: offered_def)
next
  case (Cons cr results)
  have "foldl (\<lambda>acc ct. merge_tool (fst ct) acc (snd ct)) acc (map (Pair (fst cr)) ts) =
        foldl (merge_tool (fst cr)) acc ts" for ts acc
    by (induction ts arbitrary: acc) simp_all
  then show ?case using Cons[unfolded offered_def] by (simp add: offered_def)
qed

definition entry_of :: "ChildClient \<times> string \<times> json \<Rightarrow> ChildClient \<times> string" where
  "entry_of e = (fst e, fst (snd e))"

lemma merge_invariant:
  "fst (foldl (\<lambda>acc ct. merge_tool (fst ct) acc (snd ct)) (Map.empty, []) xs) =
     (\<lambda>n. map_option entry_of (map_of (List.map_filter candidate xs) n)) \<and>
   filter published (snd (foldl (\<lambda>acc ct. merge_tool (fst ct) acc (snd ct)) (Map.empty, []) xs)) =
     map (\<lambda>e. snd (snd (snd e))) (first_by_key (List.map_filter candidate xs))"
proof (induction xs rule: rev_induct)
  case Nil
  show ?case by (simp add: List.map_filter_def)
next
  case (snoc x xs)
  define acc where "acc = foldl (\<lambda>acc ct. merge_tool (fst ct) acc (snd ct)) (Map.empty, []) xs"
  define cs where "cs = List.map_filter candidate xs"
  have m: "fst acc = (\<lambda>n. map_option entry_of (map_of cs n))"
    and l: "filter published (snd acc) = map (\<lambda>e. snd (snd (snd e))) (first_by_key cs)"
    using snoc unfolding acc_def cs_def by simp_all
  obtain ch t where x: "x = (ch, t)" by (cases x)
  have step: "foldl (\<lambda>acc ct. merge_tool (fst ct) acc (snd ct)) (Map.empty, []) (xs @ [x])
      = merge_tool ch acc t"
    by (simp add: x acc_def)
  have goal: "fst (merge_tool ch acc t) =
        (\<lambda>n. map_option entry_of (map_of (List.map_filter candidate (xs @ [x])) n)) \<and>
      filter published (snd (merge_tool ch acc t)) =
        map (\<lambda>e. snd (snd (snd e))) (first_by_key (List.map_filter candidate (xs @ [x])))"
  proof (cases "candidate (ch, t)")
    case None
    have cs': "List.map_filter candidate (xs @ [x]) = cs"
      by (simp add: map_filter_snoc x None cs_def)
    have "merge_tool ch acc t = (if truthy t \<and> typeof_object t then (fst acc, snd acc @ [t]) else acc)"
      using merge_tool_candidate[of ch acc t] None by simp
    then show ?thesis
      unfolding cs' using m l candidate_none[OF None] by simp
  next
    case (Some q)
    obtain n c orig t' where q: "q = (n, c, orig, t')" by (cases q)
    have cand: "candidate (ch, t) = Some (n, c, orig, t')" using Some q by simp
    have pub: "published t'" using candidate_published[OF cand] by simp
    have cs': "List.map_filter candidate (xs @ [x]) = cs @ [(n, c, orig, t')]"
      by (simp add: map_filter_snoc x cand cs_def)
    have mt: "merge_tool ch acc t =
        (if fst acc n = None then ((fst acc)(n \<mapsto> (c, orig)), snd acc @ [t']) else acc)"
      using merge_tool_candidate[of ch acc t] cand by simp
    have dom: "fst acc n = None \<longleftrightarrow> n \<notin> fst ` set cs"
      by (simp add: m map_of_eq_None_iff)
    show ?thesis
    proof (cases "n \<in> fst ` set cs")
      case True
      have "map_of (cs @ [(n, c, orig, t')]) = map_of cs" using True by (rule map_of_snoc_old)
      moreover have "first_by_key (cs @ [(n, c, orig, t')]) = first_by_key cs"
        using True by (simp add: first_by_key_snoc)
      moreover have "merge_tool ch acc t = acc" using mt dom True by simp
      ultimately show ?thesis unfolding cs' using m l by simp
    next
      case False
      have "map_of (cs @ [(n, c, orig, t')]) = (map_of cs)(n \<mapsto> (c, orig, t'))"
        using False by (rule map_of_snoc_new)
      moreover have "first_by_key (cs @ [(n, c, orig, t')]) = first_by_key cs @ [(n, c, orig, t')]"
        using False by (simp add: first_by_key_snoc)
      moreover have "merge_tool ch acc t = ((fst acc)(n \<mapsto> (c, orig)), snd acc @ [t'])"
        using mt dom False by simp
      ultimately show ?thesis
        unfolding cs' using m l pub by (simp add: entry_of_def fun_eq_iff)
    qed
  qed
  show ?case unfolding step by (rule goal)
qed

lemma published_normalize_tool: "published (normalize_tool ns t) = published t"
  by (simp add: published_def normalize_tool_other schema_fields_def)

lemma published_names_filter:
  "published_names ts = map (\<lambda>t. case getprop t ''name'' of Some (JStr n) \<Rightarrow> n | _ \<Rightarrow> [])
                          (filter published ts)"
  by (induction ts)
    (auto simp: published_names_def published_def List.map_filter_def split: option.splits json.splits)

lemma published_names_normalize:
  "published_names (map (normalize_tool ns) ts) = published_names ts"
  by (induction ts)
    (auto simp: published_names_def List.map_filter_def normalize_tool_other schema_fields_def)

lemma candidate_names:
  "set cs \<subseteq> set (List.map_filter candidate xs) \<Longrightarrow>
   map (\<lambda>t. case getprop t ''name'' of Some (JStr n) \<Rightarrow> n | _ \<Rightarrow> []) (map (\<lambda>e. snd (snd (snd e))) cs)
     = map fst cs"
proof (induction cs)
  case Nil
  show ?case by simp
next
  case (Cons e cs)
  obtain n c orig t where e: "e = (n, c, orig, t)" by (cases e) auto
  have "e \<in> set (List.map_filter candidate xs)" using Cons.prems by simp
  then obtain ct where "candidate ct = Some (n, c, orig, t)"
    unfolding e by (auto simp: List.map_filter_def)
  then have "getprop t ''name'' = Some (JStr n)" by (auto dest: candidate_published)
  then show ?case using Cons e by simp
qed

lemma first_by_key_subset: "set (first_by_key es) \<subseteq> set es"
proof (induction es rule: first_by_key.induct)
  case 1
  show ?case by simp
next
  case (2 d es)
  then show ?case by auto
qed

lemma merged_names:
  "published_names (snd (merge_results results)) = map fst (first_by_key (candidates results))"
  unfolding published_names_filter merge_results_def merge_results_flat candidates_def
  using merge_invariant[of "offered results"]
    candidate_names[OF first_by_key_subset, of "offered results"]
  by simp

lemma merged_table:
  "fst (merge_results results) = (\<lambda>n. map_option entry_of (map_of (candidates results) n))"
  unfolding merge_results_def merge_results_flat candidates_def
  using merge_invariant[of "offered results"] by simp

lemma candidate_some: "candidate (ch, t) = Some q \<Longrightarrow> published t"
  by (auto simp: candidate_def published_def split: json.splits option.splits if_splits)

lemma candidate_key: "candidate ct = Some (n, q) \<Longrightarrow> n \<noteq> []"
  by (auto simp: candidate_def split: json.splits option.splits if_splits)

lemma candidates_key: "[] \<notin> fst ` set (List.map_filter candidate xs)"
  by (auto simp: List.map_filter_def dest: candidate_key)

lemma merge_tool_unnamed:
  "filter (\<lambda>t. \<not> published t) (snd (merge_tool ch acc t)) =
     filter (\<lambda>t. \<not> published t) (snd acc) @ (if unnamed t then [t] else [])"
proof (cases "candidate (ch, t)")
  case None
  then show ?thesis
    using merge_tool_candidate[of ch acc t] candidate_none[OF None]
    by (simp add: unnamed_def)
next
  case (Some q)
  obtain n c orig t' where q: "q = (n, c, orig, t')" by (cases q)
  have "published t'" using candidate_published[of "(ch, t)" n c orig t'] Some q by simp
  moreover have "published t" using Some by (rule candidate_some)
  ultimately show ?thesis
    using merge_tool_candidate[of ch acc t] Some q by (simp add: unnamed_def)
qed

lemma merge_unnamed:
  "filter (\<lambda>t. \<not> published t)
     (snd (foldl (\<lambda>acc ct. merge_tool (fst ct) acc (snd ct)) (Map.empty, []) xs)) =
   filter unnamed (map snd xs)"
proof (induction xs rule: rev_induct)
  case Nil
  show ?case by simp
next
  case (snoc x xs)
  then show ?case by (simp add: merge_tool_unnamed)
qed

lemma merged_unnamed:
  "filter (\<lambda>t. \<not> published t) (snd (merge_results results)) =
     filter unnamed (map snd (offered results))"
  unfolding merge_results_def merge_results_flat by (rule merge_unnamed)

text \<open>
  Claim C6, as amended.  After a \<^verbatim>\<open>tools/list\<close> aggregation, the names of the emitted
  tools that are non-empty strings are exactly the keys of \<^verbatim>\<open>toolToChild\<close>, and no two
  emitted tools share such a name.  The entry recorded under a published name is that of
  the first candidate with this name, and the emitted tools with a published name are the
  renamed and normalized tools of these first candidates, in their order.  First is meant
  in the order in which the children's requests settled, and within one child's catalogue
  in catalogue order.  The tool objects whose name is not a non-empty string are all
  emitted, in the order in which they were offered and as often as they were offered:
  their schema fields are normalized like those of every emitted tool, their
  \<^verbatim>\<open>name\<close> is as it was, and none of them is recorded, the empty string being no key
  of \<^verbatim>\<open>toolToChild\<close>.  Values in a catalogue that are \<^verbatim>\<open>null\<close> or not objects are
  not emitted.
\<close>

theorem tools_list_names:
  "set (published_names (emitted_tools ns arrived))
     = dom (toolToChild (tools_list_done ns parentId arrived st)) \<and>
   distinct (published_names (emitted_tools ns arrived)) \<and>
   toolToChild (tools_list_done ns parentId arrived st)
     = (\<lambda>n. map_option entry_of (map_of (candidates (results_of arrived)) n)) \<and>
   filter published (emitted_tools ns arrived)
     = map (\<lambda>e. normalize_tool ns (snd (snd (snd e)))) (first_by_key (candidates (results_of arrived))) \<and>
   filter (\<lambda>t. \<not> published t) (emitted_tools ns arrived)
     = map (normalize_tool ns) (filter unnamed (map snd (offered (results_of arrived)))) \<and>
   map (\<lambda>t. getprop t ''name'') (filter (\<lambda>t. \<not> published t) (emitted_tools ns arrived))
     = map (\<lambda>t. getprop t ''name'') (filter unnamed (map snd (offered (results_of arrived)))) \<and>
   toolToChild (tools_list_done ns parentId arrived st) [] = None \<and>
   parent_stdout (tools_list_done ns parentId arrived st)
     = parent_stdout st @
         [JObj [(''jsonrpc'', JStr ''2.0''), (''id'', parentId),
                (''result'', JObj [(''tools'', JArr (emitted_tools ns arrived))])]]"
proof -
  let ?cs = "candidates (results_of arrived)"
  have tbl: "toolToChild (tools_list_done ns parentId arrived st)
      = (\<lambda>n. map_option entry_of (map_of ?cs n))"
    by (simp add: tools_list_done_def reply_def merged_table)
  have names: "published_names (emitted_tools ns arrived) = map fst (first_by_key ?cs)"
    by (simp add: emitted_tools_def published_names_normalize merged_names)
  have "dom (\<lambda>n. map_option entry_of (map_of ?cs n)) = dom (map_of ?cs)"
    by (auto simp: dom_def)
  then have "dom (\<lambda>n. map_option entry_of (map_of ?cs n)) = fst ` set ?cs"
    by (simp add: dom_map_of_conv_image_fst)
  then have doms: "set (published_names (emitted_tools ns arrived))
      = dom (toolToChild (tools_list_done ns parentId arrived st))"
    unfolding tbl names by (simp add: first_by_key_keys)
  have flt: "filter published (emitted_tools ns arrived)
      = map (\<lambda>e. normalize_tool ns (snd (snd (snd e)))) (first_by_key ?cs)"
    using merge_invariant[of "offered (results_of arrived)"]
    by (simp add: emitted_tools_def filter_map comp_def published_normalize_tool
        merge_results_def merge_results_flat candidates_def)
  have rest: "filter (\<lambda>t. \<not> published t) (emitted_tools ns arrived)
      = map (normalize_tool ns) (filter unnamed (map snd (offered (results_of arrived))))"
    using merged_unnamed[of "results_of arrived"]
    by (simp add: emitted_tools_def filter_map comp_def published_normalize_tool)
  have "''name'' \<notin> schema_fields" by (simp add: schema_fields_def)
  then have name: "getprop (normalize_tool ns t) ''name'' = getprop t ''name''" for t
    by (rule normalize_tool_other)
  have rest_names:
    "map (\<lambda>t. getprop t ''name'') (filter (\<lambda>t. \<not> published t) (emitted_tools ns arrived))
      = map (\<lambda>t. getprop t ''name'') (filter unnamed (map snd (offered (results_of arrived))))"
    unfolding rest by (simp add: comp_def name)
  have "map_of ?cs [] = None"
    using candidates_key[of "offered (results_of arrived)"]
    by (simp add: map_of_eq_None_iff candidates_def)
  then have empty: "toolToChild (tools_list_done ns parentId arrived st) [] = None"
    unfolding tbl by simp
  have out: "parent_stdout (tools_list_done ns parentId arrived st)
     = parent_stdout st @
         [JObj [(''jsonrpc'', JStr ''2.0''), (''id'', parentId),
                (''result'', JObj [(''tools'', JArr (emitted_tools ns arrived))])]]"
    by (simp add: tools_list_done_def reply_def)
  have dist: "distinct (published_names (emitted_tools ns arrived))"
    unfolding names by (rule first_by_key_distinct)
  show ?thesis
    using doms dist tbl flt rest rest_names empty out by blast
qed

text \<open>
  The first scenario of the specification: both children advertise \<^verbatim>\<open>list_dir\<close>.  Here
  the first child also offers a tool without a name, whose input schema has the type
  \<^verbatim>\<open>integer\<close>, and a string in the place of a tool.
\<close>

definition catalogue :: "string \<Rightarrow> outcome" where
  "catalogue n = Resolved (Some (JObj [(''tools'', JArr [JObj [(''name'', JStr n)]])]))"

definition mixed_catalogue :: outcome where
  "mixed_catalogue =
     Resolved (Some (JObj [(''tools'',
       JArr [JObj [(''name'', JStr ''list_dir'')],
             JObj [(''inputSchema'', JObj [(''type'', JStr ''integer'')])],
             JStr ''x''])]))"

lemma key_serena: "getChildKey serena = ''serena''"
  by (simp add: getChildKey_def serena_def normalizeKey_def strip_underscores_def to_lower_def
      key_char_def)

lemma key_fs_child: "getChildKey fs_child = ''fs''"
  by (simp add: getChildKey_def fs_child_def normalizeKey_def strip_underscores_def to_lower_def
      key_char_def)

lemma example_offered:
  "offered (results_of [(serena, mixed_catalogue), (fs_child, catalogue ''list_dir'')]) =
     [(serena, JObj [(''name'', JStr ''list_dir'')]),
      (serena, JObj [(''inputSchema'', JObj [(''type'', JStr ''integer'')])]),
      (serena, JStr ''x''),
      (fs_child, JObj [(''name'', JStr ''list_dir'')])]"
  by (simp add: offered_def catalogue_def mixed_catalogue_def tools_of_def)

lemma example_candidates:
  "candidates (results_of [(serena, mixed_catalogue), (fs_child, catalogue ''list_dir'')]) =
     [(''serena__list_dir'', serena, ''list_dir'', JObj [(''name'', JStr ''serena__list_dir'')]),
      (''fs__list_dir'', fs_child, ''list_dir'', JObj [(''name'', JStr ''fs__list_dir'')])]"
  by (simp add: candidates_def example_offered candidate_def List.map_filter_def key_serena
      key_fs_child set_prop_def)

lemma example_unnamed:
  "map (normalize_tool normalizeSchema) (filter unnamed (map snd
     (offered (results_of [(serena, mixed_catalogue), (fs_child, catalogue ''list_dir'')])))) =
     [JObj [(''inputSchema'', JObj [(''type'', JStr ''number'')])]]"
  by (simp add: example_offered unnamed_def published_def normalize_tool_def alias_field_def
      legacy_parameters_def normalize_field_def normalizeSchema_def deepClone_def fix_type_def
      recurse_map map_entries_def descend_def set_prop_def)

theorem tools_list_names_witness:
  "toolToChild (tools_list_done normalizeSchema (JNum 2)
       [(serena, mixed_catalogue), (fs_child, catalogue ''list_dir'')] example_agg)
     = (\<lambda>n. map_option entry_of
          (map_of [(''serena__list_dir'', serena, ''list_dir'', JObj [(''name'', JStr ''serena__list_dir'')]),
                   (''fs__list_dir'', fs_child, ''list_dir'', JObj [(''name'', JStr ''fs__list_dir'')])] n)) \<and>
   filter published (emitted_tools normalizeSchema
       [(serena, mixed_catalogue), (fs_child, catalogue ''list_dir'')])
     = [JObj [(''name'', JStr ''serena__list_dir'')], JObj [(''name'', JStr ''fs__list_dir'')]] \<and>
   filter (\<lambda>t. \<not> published t) (emitted_tools normalizeSchema
       [(serena, mixed_catalogue), (fs_child, catalogue ''list_dir'')])
     = [JObj [(''inputSchema'', JObj [(''type'', JStr ''number'')])]] \<and>
   toolToChild (tools_list_done normalizeSchema (JNum 2)
       [(serena, mixed_catalogue), (fs_child, catalogue ''list_dir'')] example_agg) [] = None"
  using tools_list_names [of normalizeSchema
      "[(serena, mixed_catalogue), (fs_child, catalogue ''list_dir'')]" "JNum 2" example_agg]
  by (simp add: example_candidates example_unnamed normalize_tool_def alias_field_def
      legacy_parameters_def normalize_field_def)

text \<open>The whole list of this scenario: the tool without a name stands where it was offered.\<close>

lemma example_emitted:
  "emitted_tools normalizeSchema [(serena, mixed_catalogue), (fs_child, catalogue ''list_dir'')] =
     [JObj [(''name'', JStr ''serena__list_dir'')],
      JObj [(''inputSchema'', JObj [(''type'', JStr ''number'')])],
      JObj [(''name'', JStr ''fs__list_dir'')]]"
  by (simp add: emitted_tools_def merge_results_def catalogue_def mixed_catalogue_def tools_of_def
      merge_tool_def key_serena key_fs_child Let_def normalize_tool_def alias_field_def
      legacy_parameters_def normalize_field_def normalizeSchema_def deepClone_def fix_type_def
      recurse_map map_entries_def descend_def set_prop_def)

text \<open>
  The claim as stated fails twice.  A tool whose name is the empty string is emitted under
  that name and has no key in \<^verbatim>\<open>toolToChild\<close>.  And of two children with the same key,
  the one whose request settles first is recorded, here the second of the child list.
\<close>

definition child_a :: ChildClient where
  "child_a = \<lparr>child_id = 0, child_name = Some (JStr ''a-b''), child_spawnfile = ''node''\<rparr>"

definition child_b :: ChildClient where
  "child_b = \<lparr>child_id = 1, child_name = Some (JStr ''a_b''), child_spawnfile = ''node''\<rparr>"

theorem tools_list_names_counterexample:
  "emitted_tools normalizeSchema [(serena, catalogue [])] = [JObj [(''name'', JStr [])]] \<and>
   toolToChild (tools_list_done normalizeSchema (JNum 2) [(serena, catalogue [])] example_agg) [] = None \<and>
   children (example_agg\<lparr>children := [child_a, child_b]\<rparr>) = [child_a, child_b] \<and>
   toolToChild (tools_list_done normalizeSchema (JNum 2)
       [(child_b, catalogue ''t''), (child_a, catalogue ''t'')]
       (example_agg\<lparr>children := [child_a, child_b]\<rparr>)) ''a_b__t'' = Some (child_b, ''t'') \<and>
   child_a \<noteq> child_b"
  by (simp add: emitted_tools_def tools_list_done_def reply_def merge_results_def catalogue_def
      tools_of_def merge_tool_def getChildKey_def normalizeKey_def strip_underscores_def
      to_lower_def key_char_def child_a_def child_b_def serena_def example_agg_def
      normalize_tool_def alias_field_def legacy_parameters_def normalize_field_def set_prop_def
      Let_def)

subsection \<open>The reply to \<^verbatim>\<open>initialize\<close>\<close>

definition example_initialize :: json where
  "example_initialize =
     JObj [(''jsonrpc'', JStr ''2.0''), (''id'', JNum 1), (''method'', JStr ''initialize''),
           (''params'', JObj [(''protocolVersion'', JStr ''2025-03-26'')])]"

text \<open>Without children the reply is immediate and minimal; so it is when the timer fires.\<close>

lemma initialize_no_children:
  "parent_stdout (onParentMessage False example_initialize (example_agg\<lparr>children := []\<rparr>)) =
     [JObj [(''jsonrpc'', JStr ''2.0''), (''id'', JNum 1),
            (''result'', minimalInitializeResult (JStr ''2025-03-26''))]]"
  by (simp add: onParentMessage_def example_initialize_def example_agg_def initialize_start_def
      reply_def pver_def getprop2_def)

lemma initialize_timed_out:
  "parent_stdout (initialize_done False example_initialize TimedOut example_agg) =
     [JObj [(''jsonrpc'', JStr ''2.0''), (''id'', JNum 1),
            (''result'', minimalInitializeResult (JStr ''2025-03-26''))]]"
  by (simp add: example_initialize_def example_agg_def initialize_done_def
      reply_def pver_def getprop2_def)

text \<open>
  When the first result is an object whose \<^verbatim>\<open>capabilities\<close> and \<^verbatim>\<open>serverInfo\<close> are
  objects or falsy, the coercion succeeds and yields what the specification says.
\<close>

fun object_or_falsy :: "json option \<Rightarrow> bool" where
  "object_or_falsy None = True"
| "object_or_falsy (Some (JObj flds)) = True"
| "object_or_falsy (Some v) = (\<not> truthy v)"

lemma coerce_capabilities_object:
  assumes "object_or_falsy caps"
  shows "\<exists>c. coerce_capabilities caps = Some (JObj c) \<and> truthy_opt (map_of c ''tools'') \<and>
             (\<not> truthy_opt (getprop_opt caps ''tools'') \<longrightarrow>
                map_of c ''tools'' = Some (JObj [(''listChanged'', JBool False)]))"
proof (cases caps)
  case None
  then show ?thesis by (simp add: coerce_capabilities_def map_of_set_prop)
next
  case (Some v)
  then show ?thesis
    using assms by (cases v) (auto simp: coerce_capabilities_def map_of_set_prop Let_def)
qed

lemma coerce_serverInfo_object:
  assumes "object_or_falsy info"
  shows "\<exists>c. coerce_serverInfo info = Some (JObj c) \<and> map_of c ''name'' = Some (JStr ''mcp'')"
proof (cases info)
  case None
  then show ?thesis by (simp add: coerce_serverInfo_def map_of_set_prop)
next
  case (Some v)
  then show ?thesis
    using assms by (cases v) (auto simp: coerce_serverInfo_def map_of_set_prop)
qed

lemma coerce_result_object:
  assumes "object_or_falsy (map_of flds ''capabilities'')"
    and "object_or_falsy (map_of flds ''serverInfo'')"
  shows "\<exists>res. coerce_result (Some (JObj flds)) pv = Some (JObj res) \<and>
           getprop2 (JObj res) ''serverInfo'' ''name'' = Some (JStr ''mcp'') \<and>
           truthy_opt (getprop2 (JObj res) ''capabilities'' ''tools'') \<and>
           map_of res ''protocolVersion'' =
             (if nullish (map_of flds ''protocolVersion'') then Some pv
              else map_of flds ''protocolVersion'')"
proof -
  let ?f1 = "if nullish (map_of flds ''protocolVersion'')
             then set_prop ''protocolVersion'' pv flds else flds"
  have c1: "map_of ?f1 ''capabilities'' = map_of flds ''capabilities''"
    by (simp add: map_of_set_prop)
  obtain c where c: "coerce_capabilities (map_of ?f1 ''capabilities'') = Some (JObj c)"
      "truthy_opt (map_of c ''tools'')"
    using coerce_capabilities_object[OF assms(1)] unfolding c1 by blast
  let ?f2 = "set_prop ''capabilities'' (JObj c) ?f1"
  have s2: "map_of ?f2 ''serverInfo'' = map_of flds ''serverInfo''"
    by (simp add: map_of_set_prop)
  obtain i where i: "coerce_serverInfo (map_of ?f2 ''serverInfo'') = Some (JObj i)"
      "map_of i ''name'' = Some (JStr ''mcp'')"
    using coerce_serverInfo_object[OF assms(2)] unfolding s2 by blast
  have "coerce_result (Some (JObj flds)) pv = Some (JObj (set_prop ''serverInfo'' (JObj i) ?f2))"
    using c(1) i(1) by (simp add: coerce_result_def Let_def)
  moreover have "map_of (set_prop ''serverInfo'' (JObj i) ?f2) ''protocolVersion'' =
      (if nullish (map_of flds ''protocolVersion'') then Some pv else map_of flds ''protocolVersion'')"
    by (simp add: map_of_set_prop)
  ultimately show ?thesis
    using c(2) i(2) by (simp add: getprop2_def map_of_set_prop)
qed

text \<open>
  Claim C9 says that every success reply to \<^verbatim>\<open>initialize\<close> has its protocol version
  set, \<^verbatim>\<open>capabilities.tools\<close> present and \<^verbatim>\<open>serverInfo.name\<close> equal to \<^verbatim>\<open>"mcp"\<close>.
  The coercion guards against a result that is not an object with
  \<^verbatim>\<open>typeof result !== "object"\<close>, which an array passes.  Its assignments then add
  properties to the array object, and the reply, serialized, is the array as the child
  sent it.
\<close>

theorem initialize_array_result:
  "parent_stdout (initialize_done False example_initialize
       (AllSettled [(serena, Resolved (Some (JArr [])))]) example_agg) =
     [JObj [(''jsonrpc'', JStr ''2.0''), (''id'', JNum 1), (''result'', JArr [])]]"
  by (simp add: initialize_done_def example_initialize_def example_agg_def coerce_result_def
      reply_def pver_def getprop2_def)

text \<open>The same happens one level down, when \<^verbatim>\<open>serverInfo\<close> is an array.\<close>

lemma initialize_array_serverInfo:
  "coerce_result (Some (JObj [(''serverInfo'', JArr [])])) (JStr ''2025-03-26'') =
     Some (JObj [(''serverInfo'', JArr []), (''protocolVersion'', JStr ''2025-03-26''),
                 (''capabilities'', JObj [(''tools'', JObj [(''listChanged'', JBool False)])])])"
  by (simp add: coerce_result_def coerce_capabilities_def coerce_serverInfo_def set_prop_def)

section \<open>Frame decoder: \<^verbatim>\<open>JsonRpcStdio.onData\<close> (jsonrpc.ts)\<close>

















subsection \<open>The encodings a peer may send\<close>



subsection \<open>Searching a buffer\<close>










subsection \<open>Decimal numerals\<close>








subsection \<open>The header of a length-prefixed frame\<close>







subsection \<open>One run of the loop\<close>















subsection \<open>A stream cut into chunks\<close>


















subsection \<open>Mixed framings on one stream\<close>







end
